theory Spec2Isabelle
  imports Complex_Main "HOL-Library.Word" "HOL-Library.Multiset"
begin

unbundle bit_operations_syntax

section \<open>The raycasting engine of raycast.c\<close>

text \<open>
  A shallow embedding of the rendering core of \<^verbatim>\<open>raycast.c\<close>. C \<^verbatim>\<open>int\<close> values are
  modelled as \<^typ>\<open>int\<close> (all values that occur are screen or map coordinates, far from
  the 32-bit range), \<^verbatim>\<open>uint32_t\<close> pixels as \<^typ>\<open>32 word\<close>, and \<^verbatim>\<open>float\<close> values as
  \<^typ>\<open>real\<close>: rounding of floating-point operations is not modelled, and a conversion
  \<^verbatim>\<open>(int)\<close> of a float is truncation towards zero.
\<close>

subsection \<open>Constants\<close>

abbreviation (input) SCREEN_WIDTH :: int where "SCREEN_WIDTH \<equiv> 1024"
abbreviation (input) SCREEN_HEIGHT :: int where "SCREEN_HEIGHT \<equiv> 512"

abbreviation (input) MAPX :: int where "MAPX \<equiv> 8"
abbreviation (input) MAPY :: int where "MAPY \<equiv> 8"
abbreviation (input) MAP_CELL_SIZE :: int where "MAP_CELL_SIZE \<equiv> 64"

abbreviation (input) TEXTURE_SIZE :: int where "TEXTURE_SIZE \<equiv> 64"
abbreviation (input) FOV :: int where "FOV \<equiv> 60"
abbreviation (input) RAY_COUNT :: int where "RAY_COUNT \<equiv> 256"
abbreviation (input) PI :: real where "PI \<equiv> 3.14159265359"

abbreviation (input) WALL_DISTANCE_DIMMING :: real where "WALL_DISTANCE_DIMMING \<equiv> 15"
abbreviation (input) FLOOR_DISTANCE_DIMMING :: real where "FLOOR_DISTANCE_DIMMING \<equiv> 15"
abbreviation (input) CEILING_DISTANCE_DIMMING :: real where "CEILING_DISTANCE_DIMMING \<equiv> 15"
abbreviation (input) SPRITE_DISTANCE_DIMMING :: real where "SPRITE_DISTANCE_DIMMING \<equiv> 11"
abbreviation (input) WALL_MIN_BRIGHTNESS :: real where "WALL_MIN_BRIGHTNESS \<equiv> 0.7"
abbreviation (input) FLOOR_MIN_BRIGHTNESS :: real where "FLOOR_MIN_BRIGHTNESS \<equiv> 0.65"
abbreviation (input) CEILING_MIN_BRIGHTNESS :: real where "CEILING_MIN_BRIGHTNESS \<equiv> 0.65"
abbreviation (input) SPRITE_MIN_BRIGHTNESS :: real where "SPRITE_MIN_BRIGHTNESS \<equiv> 0.7"

text \<open>
  The static map layout (0 is empty space, 1 to 3 are wall materials) and the static sprite
  layout (0 is no sprite, 1 to 7 are solid objects, 8 is a ceiling light), both row-major
  with \<open>MAPX\<close> cells per row. The C identifier \<^verbatim>\<open>map\<close> is written \<open>map_walls\<close> here.
\<close>

definition map_walls :: "int list" where
  "map_walls =
    [3,3,3,3,3,1,1,1,
     3,0,0,0,0,1,0,1,
     3,0,0,0,0,0,0,1,
     3,0,0,0,0,0,0,1,
     3,3,0,0,0,0,2,1,
     1,0,0,0,0,2,2,3,
     1,0,0,0,0,0,0,3,
     1,1,1,1,1,1,1,3]"

definition map_sprites :: "int list" where
  "map_sprites =
    [0,0,0,0,0,0,0,0,
     0,2,0,0,5,0,6,0,
     0,0,0,8,0,0,8,0,
     0,3,0,0,0,0,7,0,
     0,0,0,0,0,1,0,0,
     0,0,0,8,0,0,0,0,
     0,2,0,0,0,8,4,0,
     0,0,0,0,0,0,0,0]"

subsection \<open>Framebuffer\<close>

text \<open>
  \<^verbatim>\<open>pixels\<close> is a heap block of \<^verbatim>\<open>SCREEN_WIDTH * SCREEN_HEIGHT\<close> 32-bit cells. The drawing
  primitives see it as a list of words; \<^verbatim>\<open>memset\<close> sees the same block as bytes.
\<close>

type_synonym framebuffer = "32 word list"

definition r_drawpoint :: "int \<Rightarrow> int \<Rightarrow> 32 word \<Rightarrow> framebuffer \<Rightarrow> framebuffer" where
  "r_drawpoint x y color pixels =
     (if x < 0 \<or> x \<ge> SCREEN_WIDTH \<or> y < 0 \<or> y \<ge> SCREEN_HEIGHT then pixels
      else let index = SCREEN_WIDTH * y + x in
        if index < 0 \<or> index \<ge> SCREEN_WIDTH * SCREEN_HEIGHT then pixels
        else pixels[nat index := color])"

text \<open>
  \<^verbatim>\<open>memset(p, v, n)\<close> converts \<^verbatim>\<open>v\<close> to \<^verbatim>\<open>unsigned char\<close> and stores that byte into
  the first \<^verbatim>\<open>n\<close> bytes at \<^verbatim>\<open>p\<close>.
\<close>

definition memset :: "8 word list \<Rightarrow> 32 word \<Rightarrow> nat \<Rightarrow> 8 word list" where
  "memset buf v n = replicate n (ucast v) @ drop n buf"

definition r_clearscreenbuffer :: "8 word list \<Rightarrow> 8 word list" where
  "r_clearscreenbuffer buf = memset buf 0xFFBBBBBB (nat (4 * SCREEN_WIDTH * SCREEN_HEIGHT))"

text \<open>
  Pixel \<open>i\<close> of the block, read back as a \<^verbatim>\<open>uint32_t\<close> from its four bytes (least
  significant byte first; with four equal bytes the byte order makes no difference).
\<close>

definition load_pixel :: "8 word list \<Rightarrow> nat \<Rightarrow> 32 word" where
  "load_pixel buf i =
     ucast (buf ! (4 * i)) OR push_bit 8 (ucast (buf ! (4 * i + 1)))
       OR push_bit 16 (ucast (buf ! (4 * i + 2))) OR push_bit 24 (ucast (buf ! (4 * i + 3)))"

subsection \<open>Line drawing\<close>

text \<open>
  Integer division in C truncates towards zero.
\<close>

definition c_div :: "int \<Rightarrow> int \<Rightarrow> int" where
  "c_div a b = (if (a < 0) = (b < 0) then \<bar>a\<bar> div \<bar>b\<bar> else - (\<bar>a\<bar> div \<bar>b\<bar>))"

text \<open>
  A C \<^verbatim>\<open>int\<close> has 32 bits: the values of an \<^verbatim>\<open>int\<close> variable are the integers from \<open>-2\<^sup>3\<^sup>1\<close> up
  to \<open>2\<^sup>3\<^sup>1 - 1\<close>, and \<open>int32\<close> is the value an arithmetic result takes in such a variable,
  the two's complement wrap-around of the usual targets (the C standard leaves the overflow
  of signed arithmetic undefined). Every addition, subtraction and negation of
  \<^verbatim>\<open>r_drawline\<close> goes through it.
\<close>

definition int32 :: "int \<Rightarrow> int" where
  "int32 k = (k + 2147483648) mod 4294967296 - 2147483648"

definition is_int32 :: "int \<Rightarrow> bool" where
  "is_int32 k \<longleftrightarrow> - 2147483648 \<le> k \<and> k < 2147483648"

text \<open>
  The loop of \<^verbatim>\<open>r_drawline\<close>. It has no bound of its own, so the model is a partial function:
  \<open>None\<close> stands for a run that never leaves the loop. The primitive called on every visited
  point is the parameter \<open>draw\<close>, acting on a state \<open>s\<close>; \<^verbatim>\<open>r_drawline\<close> is the instance that
  calls \<open>r_drawpoint\<close> on the framebuffer, and \<open>r_drawline_points\<close> is the instance that
  records the sequence of visited points.
\<close>

partial_function (option) drawline_loop ::
  "(int \<Rightarrow> int \<Rightarrow> 's \<Rightarrow> 's) \<Rightarrow> int \<Rightarrow> int \<Rightarrow> int \<Rightarrow> int \<Rightarrow> int \<Rightarrow> int \<Rightarrow> int \<Rightarrow> int \<Rightarrow> int \<Rightarrow> 's \<Rightarrow> 's option" where
  "drawline_loop draw dx dy sx sy x1 y1 x0 y0 err s =
     (let s = draw x0 y0 s
      in if x0 = x1 \<and> y0 = y1 then Some s
         else let e2 = err;
                  err = (if e2 > int32 (- dx) then int32 (err - dy) else err);
                  x0 = (if e2 > int32 (- dx) then int32 (x0 + sx) else x0);
                  err = (if e2 < dy then int32 (err + dx) else err);
                  y0 = (if e2 < dy then int32 (y0 + sy) else y0)
              in drawline_loop draw dx dy sx sy x1 y1 x0 y0 err s)"

definition drawline_with :: "(int \<Rightarrow> int \<Rightarrow> 's \<Rightarrow> 's) \<Rightarrow> int \<Rightarrow> int \<Rightarrow> int \<Rightarrow> int \<Rightarrow> 's \<Rightarrow> 's option" where
  "drawline_with draw x0 y0 x1 y1 s =
     (let dx = (if x1 > x0 then int32 (x1 - x0) else int32 (x0 - x1));
          dy = (if y1 > y0 then int32 (y1 - y0) else int32 (y0 - y1));
          sx = (if x0 < x1 then 1 else - 1);
          sy = (if y0 < y1 then 1 else - 1);
          err = c_div (if dx > dy then dx else int32 (- dy)) 2
      in drawline_loop draw dx dy sx sy x1 y1 x0 y0 err s)"

definition r_drawline :: "int \<Rightarrow> int \<Rightarrow> int \<Rightarrow> int \<Rightarrow> 32 word \<Rightarrow> framebuffer \<Rightarrow> framebuffer option" where
  "r_drawline x0 y0 x1 y1 color pixels =
     drawline_with (\<lambda>x y. r_drawpoint x y color) x0 y0 x1 y1 pixels"

text \<open>
  The invariant of the loop, in terms of the numbers \<open>rx\<close> and \<open>ry\<close> of steps still to take
  along each axis: the error term is determined by them, and it stays within one major-axis
  length of its initial value \<open>err0\<close>.
\<close>

definition bres_inv :: "int \<Rightarrow> int \<Rightarrow> int \<Rightarrow> int \<Rightarrow> int \<Rightarrow> int \<Rightarrow> bool" where
  "bres_inv dx dy err0 rx ry err \<longleftrightarrow>
     0 \<le> rx \<and> 0 \<le> ry \<and> err = err0 + rx * dy - ry * dx \<and>
     (if dx > dy then 0 \<le> err \<and> err < dx \<and> 0 \<le> err0 \<and> err0 < dx
      else (dy = 0 \<and> rx = 0 \<and> ry = 0) \<or> (- dy < err \<and> err \<le> 0 \<and> - dy < err0 \<and> err0 \<le> 0))"

definition r_drawline_points :: "int \<Rightarrow> int \<Rightarrow> int \<Rightarrow> int \<Rightarrow> (int \<times> int) list option" where
  "r_drawline_points x0 y0 x1 y1 = drawline_with (\<lambda>x y ps. ps @ [(x, y)]) x0 y0 x1 y1 []"

subsection \<open>Collision probe\<close>

definition check_collision :: "real \<Rightarrow> real \<Rightarrow> bool" where
  "check_collision x y =
     (let mapX = \<lfloor>x / real_of_int MAP_CELL_SIZE\<rfloor>;
          mapY = \<lfloor>y / real_of_int MAP_CELL_SIZE\<rfloor>
      in if mapX < 0 \<or> mapX \<ge> MAPX \<or> mapY < 0 \<or> mapY \<ge> MAPY then True
         else if map_walls ! nat (mapY * MAPX + mapX) > 0 then True
         else if map_sprites ! nat (mapY * MAPX + mapX) > 0
                 \<and> map_sprites ! nat (mapY * MAPX + mapX) < 8 then True
         else False)"

subsection \<open>Distance shading\<close>

text \<open>
  The brightness factors that \<^verbatim>\<open>r_raycast\<close> and \<^verbatim>\<open>r_render_sprites\<close> multiply into the
  colour channels of a wall, floor, ceiling and sprite pixel, as functions of the distance
  they are computed from.
\<close>

definition wall_darkening :: "bool \<Rightarrow> real \<Rightarrow> real" where
  "wall_darkening hitVertical correctedDistance =
     (let wallDarkening = 1 - correctedDistance / (real_of_int MAP_CELL_SIZE * WALL_DISTANCE_DIMMING);
          wallDarkening = (if wallDarkening < WALL_MIN_BRIGHTNESS then WALL_MIN_BRIGHTNESS
                           else wallDarkening)
      in if hitVertical then wallDarkening * 0.8 else wallDarkening)"

definition floor_darkening :: "real \<Rightarrow> real" where
  "floor_darkening floorDistance =
     (let darkening = 1 - floorDistance / (real_of_int MAP_CELL_SIZE * FLOOR_DISTANCE_DIMMING)
      in if darkening < FLOOR_MIN_BRIGHTNESS then FLOOR_MIN_BRIGHTNESS else darkening)"

definition ceiling_darkening :: "real \<Rightarrow> real" where
  "ceiling_darkening ceilDistance =
     (let darkening =
            (1 - ceilDistance / (real_of_int MAP_CELL_SIZE * CEILING_DISTANCE_DIMMING)) * 0.85
      in if darkening < CEILING_MIN_BRIGHTNESS then CEILING_MIN_BRIGHTNESS else darkening)"

definition sprite_dark :: "real \<Rightarrow> real" where
  "sprite_dark sdist =
     (let dark = 1 - sdist / (real_of_int MAP_CELL_SIZE * SPRITE_DISTANCE_DIMMING)
      in if dark < SPRITE_MIN_BRIGHTNESS then SPRITE_MIN_BRIGHTNESS else dark)"

subsection \<open>Sprite collection and sorting\<close>

text \<open>
  The sprite instances that \<^verbatim>\<open>r_render_sprites\<close> collects from the sprite layout, one for each
  cell with a positive code, in row-major order: the centre of the cell, its distance to the
  player and the sprite type. The array \<^verbatim>\<open>sprites\<close> with its counter \<^verbatim>\<open>sprite_count\<close> is a list.
\<close>

record sprite =
  sprite_x :: real
  sprite_y :: real
  sprite_dist :: real
  sprite_type :: int

definition collect_sprites :: "real \<Rightarrow> real \<Rightarrow> sprite list" where
  "collect_sprites px py =
     foldl (\<lambda>sprites my.
       foldl (\<lambda>sprites mx.
         let spriteType = map_sprites ! nat (my * MAPX + mx)
         in if spriteType > 0 then
              let sx = real_of_int (mx * MAP_CELL_SIZE) + real_of_int MAP_CELL_SIZE * 0.5;
                  sy = real_of_int (my * MAP_CELL_SIZE) + real_of_int MAP_CELL_SIZE * 0.5;
                  dx = sx - px;
                  dy = sy - py
              in sprites @ [\<lparr>sprite_x = sx, sprite_y = sy,
                               sprite_dist = sqrt (dx * dx + dy * dy), sprite_type = spriteType\<rparr>]
            else sprites)
         sprites [0..MAPX - 1])
       [] [0..MAPY - 1]"

text \<open>
  The exchange sort by distance: for every \<open>i\<close> the inner loop runs \<open>j\<close> over the later
  positions and swaps entries \<open>i\<close> and \<open>j\<close> whenever entry \<open>i\<close> is the nearer one.
\<close>

function sort_inner :: "nat \<Rightarrow> nat \<Rightarrow> sprite list \<Rightarrow> sprite list" where
  "sort_inner i j sprites =
     (if j < length sprites then
        sort_inner i (j + 1)
          (if sprite_dist (sprites ! i) < sprite_dist (sprites ! j)
           then sprites[i := sprites ! j, j := sprites ! i]
           else sprites)
      else sprites)"
  by pat_completeness auto
termination
  by (relation "measure (\<lambda>(i, j, sprites). length sprites - j)") auto

declare sort_inner.simps [simp del]

lemma sort_inner_length: "length (sort_inner i j sprites) = length sprites"
proof (induction i j sprites rule: sort_inner.induct)
  case (1 i j sprites)
  show ?case
    using "1.IH" by (subst sort_inner.simps) simp
qed

function sort_outer :: "nat \<Rightarrow> sprite list \<Rightarrow> sprite list" where
  "sort_outer i sprites =
     (if int i < int (length sprites) - 1
      then sort_outer (i + 1) (sort_inner i (i + 1) sprites)
      else sprites)"
  by pat_completeness auto
termination
  by (relation "measure (\<lambda>(i, sprites). length sprites - i)") (auto simp: sort_inner_length)

declare sort_outer.simps [simp del]

definition sort_sprites :: "sprite list \<Rightarrow> sprite list" where
  "sort_sprites sprites = sort_outer 0 sprites"

text \<open>
  The invariant of the outer loop: each of the first \<open>i\<close> entries is at least as far as every
  later entry.
\<close>

definition front_sorted :: "nat \<Rightarrow> sprite list \<Rightarrow> bool" where
  "front_sorted i sprites \<longleftrightarrow>
     (\<forall>a b. a < i \<and> a < b \<and> b < length sprites \<longrightarrow> sprite_dist (sprites ! b) \<le> sprite_dist (sprites ! a))"

subsection \<open>Grid traversal\<close>

text \<open>
  The per-ray part of \<^verbatim>\<open>r_raycast\<close>. The player position \<^verbatim>\<open>player.x\<close>, \<^verbatim>\<open>player.y\<close> and
  facing angle \<^verbatim>\<open>player.angle\<close> are the parameters \<open>px\<close>, \<open>py\<close> and \<open>pangle\<close>. The map is
  a parameter \<open>g\<close> of the traversal, so that properties can be stated for every grid of the
  same 8 by 8 shape; \<^verbatim>\<open>r_raycast\<close> itself runs on \<open>map_walls\<close>.
\<close>

definition m_deg_to_rad :: "real \<Rightarrow> real" where
  "m_deg_to_rad a = a * PI / 180"

text \<open>
  The result of one of the two grid-line tests: \<^verbatim>\<open>hitX_H\<close>, \<^verbatim>\<open>hitY_H\<close>, \<^verbatim>\<open>wallType_H\<close>,
  \<^verbatim>\<open>distanceH\<close> (and the same with \<^verbatim>\<open>V\<close>). The selected hit of a ray adds the flag
  \<^verbatim>\<open>hitVertical\<close>; its \<open>wallType\<close> is \<^verbatim>\<open>currentWallType\<close>. \<open>no_hit\<close> holds the initial values
  of the four variables, with the sentinel distance 1000000.
\<close>

record wall_hit =
  hitX :: real
  hitY :: real
  wallType :: int
  distance :: real

record ray_hit = wall_hit +
  hitVertical :: bool

definition no_hit :: wall_hit where
  "no_hit = \<lparr>hitX = 0, hitY = 0, wallType = 0, distance = 1000000\<rparr>"

text \<open>
  The stepping loop, the same in both tests: \<open>n\<close> is the number of iterations left
  (\<^verbatim>\<open>MAPY - depth\<close> or \<^verbatim>\<open>MAPX - depth\<close>). Besides the hit it returns the number of times the
  loop body ran.
\<close>

fun cast_loop :: "int list \<Rightarrow> real \<Rightarrow> real \<Rightarrow> real \<Rightarrow> real \<Rightarrow> nat \<Rightarrow> real \<Rightarrow> real \<Rightarrow> nat \<times> wall_hit" where
  "cast_loop g px py deltaX deltaY 0 testX testY = (0, no_hit)"
| "cast_loop g px py deltaX deltaY (Suc n) testX testY =
     (let mapX = \<lfloor>testX / real_of_int MAP_CELL_SIZE\<rfloor>;
          mapY = \<lfloor>testY / real_of_int MAP_CELL_SIZE\<rfloor>
      in if mapX < 0 \<or> mapX \<ge> MAPX \<or> mapY < 0 \<or> mapY \<ge> MAPY then (1, no_hit)
         else if g ! nat (mapY * MAPX + mapX) > 0 then
           (1, \<lparr>hitX = testX, hitY = testY, wallType = g ! nat (mapY * MAPX + mapX),
                distance = sqrt ((testX - px) * (testX - px) + (testY - py) * (testY - py))\<rparr>)
         else (case cast_loop g px py deltaX deltaY n (testX + deltaX) (testY + deltaY) of
                 (k, h) \<Rightarrow> (Suc k, h)))"

definition cast_horizontal :: "int list \<Rightarrow> real \<Rightarrow> real \<Rightarrow> real \<Rightarrow> real \<Rightarrow> nat \<times> wall_hit" where
  "cast_horizontal g px py rayDirX rayDirY =
     (if rayDirY \<noteq> 0 then
        let deltaY = (if rayDirY < 0 then - real_of_int MAP_CELL_SIZE else real_of_int MAP_CELL_SIZE);
            firstY = (if rayDirY < 0
                      then real_of_int \<lfloor>py / real_of_int MAP_CELL_SIZE\<rfloor> * real_of_int MAP_CELL_SIZE - 0.01
                      else real_of_int \<lfloor>py / real_of_int MAP_CELL_SIZE\<rfloor> * real_of_int MAP_CELL_SIZE
                             + real_of_int MAP_CELL_SIZE);
            deltaX = deltaY * (rayDirX / rayDirY);
            testY = firstY;
            testX = px + (testY - py) * (rayDirX / rayDirY)
        in cast_loop g px py deltaX deltaY (nat MAPY) testX testY
      else (0, no_hit))"

definition cast_vertical :: "int list \<Rightarrow> real \<Rightarrow> real \<Rightarrow> real \<Rightarrow> real \<Rightarrow> nat \<times> wall_hit" where
  "cast_vertical g px py rayDirX rayDirY =
     (if rayDirX \<noteq> 0 then
        let deltaX = (if rayDirX < 0 then - real_of_int MAP_CELL_SIZE else real_of_int MAP_CELL_SIZE);
            firstX = (if rayDirX < 0
                      then real_of_int \<lfloor>px / real_of_int MAP_CELL_SIZE\<rfloor> * real_of_int MAP_CELL_SIZE - 0.01
                      else real_of_int \<lfloor>px / real_of_int MAP_CELL_SIZE\<rfloor> * real_of_int MAP_CELL_SIZE
                             + real_of_int MAP_CELL_SIZE);
            deltaY = deltaX * (rayDirY / rayDirX);
            testX = firstX;
            testY = py + (testX - px) * (rayDirY / rayDirX)
        in cast_loop g px py deltaX deltaY (nat MAPX) testX testY
      else (0, no_hit))"

text \<open>
  The choice between the two candidates. The debug line drawn every fourth ray is the same
  call in both branches and does not touch the values modelled here.
\<close>

definition select_hit :: "wall_hit \<Rightarrow> wall_hit \<Rightarrow> ray_hit" where
  "select_hit h v =
     (if distance h < distance v
      then \<lparr>hitX = hitX h, hitY = hitY h, wallType = wallType h, distance = distance h,
            hitVertical = False\<rparr>
      else \<lparr>hitX = hitX v, hitY = hitY v, wallType = wallType v, distance = distance v,
            hitVertical = True\<rparr>)"

definition cast_ray :: "int list \<Rightarrow> real \<Rightarrow> real \<Rightarrow> real \<Rightarrow> ray_hit" where
  "cast_ray g px py rangle =
     (let rayAngleRad = m_deg_to_rad rangle;
          rayDirX = cos rayAngleRad;
          rayDirY = - sin rayAngleRad
      in select_hit (snd (cast_horizontal g px py rayDirX rayDirY))
                    (snd (cast_vertical g px py rayDirX rayDirY)))"

text \<open>
  The loop over the rays, restricted to what it stores in \<^verbatim>\<open>wall_distances\<close> (and in
  \<^verbatim>\<open>player.rays_d\<close>): \<open>n\<close> is the number of rays left, \<open>rangle\<close> the angle of the current ray.
\<close>

fun raycast_distances :: "int list \<Rightarrow> real \<Rightarrow> real \<Rightarrow> real \<Rightarrow> nat \<Rightarrow> real \<Rightarrow> real list" where
  "raycast_distances g px py pangle 0 rangle = []"
| "raycast_distances g px py pangle (Suc n) rangle =
     (let correctedDistance =
            distance (cast_ray g px py rangle) * cos (m_deg_to_rad (rangle - pangle))
      in correctedDistance
           # raycast_distances g px py pangle n (rangle + real_of_int FOV / real_of_int RAY_COUNT))"

definition r_raycast_wall_distances :: "real \<Rightarrow> real \<Rightarrow> real \<Rightarrow> real list" where
  "r_raycast_wall_distances px py pangle =
     raycast_distances map_walls px py pangle (nat RAY_COUNT) (pangle - real_of_int FOV / 2)"

text \<open>
  The angle of ray \<open>r\<close> as the specification gives it: camera angle minus half the field of
  view plus \<open>r\<close> steps of \<open>FOV / RAY_COUNT\<close> degrees.
\<close>

definition ray_angle :: "real \<Rightarrow> nat \<Rightarrow> real" where
  "ray_angle pangle r = pangle - real_of_int FOV / 2 + real r * (real_of_int FOV / real_of_int RAY_COUNT)"

text \<open>The two candidates of the ray with angle \<open>rangle\<close>.\<close>

definition horizontal_candidate :: "int list \<Rightarrow> real \<Rightarrow> real \<Rightarrow> real \<Rightarrow> wall_hit" where
  "horizontal_candidate g px py rangle =
     snd (cast_horizontal g px py (cos (m_deg_to_rad rangle)) (- sin (m_deg_to_rad rangle)))"

definition vertical_candidate :: "int list \<Rightarrow> real \<Rightarrow> real \<Rightarrow> real \<Rightarrow> wall_hit" where
  "vertical_candidate g px py rangle =
     snd (cast_vertical g px py (cos (m_deg_to_rad rangle)) (- sin (m_deg_to_rad rangle)))"

subsection \<open>Sprite rendering\<close>

text \<open>
  The conversion \<^verbatim>\<open>(int)\<close> of a float truncates towards zero.
\<close>

definition c_int :: "real \<Rightarrow> int" where
  "c_int r = (if 0 \<le> r then \<lfloor>r\<rfloor> else \<lceil>r\<rceil>)"

definition m_fix_ang :: "real \<Rightarrow> real" where
  "m_fix_ang a =
     (let a = (if a > 359 then a - 360 else a);
          a = (if a < 0 then a + 360 else a)
      in a)"

text \<open>
  The C library function \<^verbatim>\<open>atan2f\<close>: the angle of the point \<open>(x, y)\<close> in \<open>(-\<pi>, \<pi>]\<close>.
\<close>

definition atan2f :: "real \<Rightarrow> real \<Rightarrow> real" where
  "atan2f y x =
     (if 0 < x then arctan (y / x)
      else if x < 0 then (if 0 \<le> y then arctan (y / x) + pi else arctan (y / x) - pi)
      else if 0 < y then pi / 2
      else if y < 0 then - (pi / 2)
      else 0)"

text \<open>
  A counting loop \<^verbatim>\<open>for (v = i; v <= hi; v++)\<close> whose body transforms a state.
\<close>

function for_loop :: "int \<Rightarrow> int \<Rightarrow> (int \<Rightarrow> 's \<Rightarrow> 's) \<Rightarrow> 's \<Rightarrow> 's" where
  "for_loop i hi body s = (if i \<le> hi then for_loop (i + 1) hi body (body i s) else s)"
  by pat_completeness auto
termination
  by (relation "measure (\<lambda>(i, hi, body, s). nat (hi + 1 - i))") auto

declare for_loop.simps [simp del]

text \<open>
  The bearing of a sprite relative to the facing direction, in degrees, brought into
  \<open>[-180, 180]\<close>.
\<close>

definition sprite_angle_diff :: "real \<Rightarrow> real \<Rightarrow> real \<Rightarrow> sprite \<Rightarrow> real" where
  "sprite_angle_diff px py pangle spr =
     (let dx = sprite_x spr - px;
          dy = sprite_y spr - py;
          sprite_angle = m_fix_ang (atan2f (- dy) dx * 180 / PI);
          angle_diff = sprite_angle - pangle;
          angle_diff = (if angle_diff < - 180 then angle_diff + 360 else angle_diff);
          angle_diff = (if angle_diff > 180 then angle_diff - 360 else angle_diff)
      in angle_diff)"

text \<open>
  The values the loop body fixes before it draws: the square size and the clipped screen
  rectangle of the sprite with the texture offsets of its clipped edges. \<open>None\<close> is a
  sprite skipped by \<^verbatim>\<open>continue\<close>. For \<open>perpDist\<close> above 32768 the size \<open>sprite_h\<close> is 0 and the C
  code divides by it; the properties below are stated for \<open>sprite_h > 0\<close>.
\<close>

record sprite_rect =
  sprite_h :: int
  sprite_w :: int
  drawStartX :: int
  drawEndX :: int
  drawStartY :: int
  drawEndY :: int
  texX_start :: int
  texY_start :: int

definition sprite_footprint :: "real \<Rightarrow> real \<Rightarrow> int \<Rightarrow> sprite_rect option" where
  "sprite_footprint angle_diff perpDist column_width =
     (if perpDist < 1 then None
      else let sprite_h = c_int (real_of_int (MAP_CELL_SIZE * SCREEN_HEIGHT) / perpDist)
      in if sprite_h > SCREEN_HEIGHT * 2 then None
      else let sprite_w = sprite_h;
               drawEndY = c_div SCREEN_HEIGHT 2 + c_div sprite_h 2;
               drawStartY = drawEndY - sprite_h;
               texY_start = (if drawStartY < 0 then c_div ((- drawStartY) * TEXTURE_SIZE) sprite_h else 0);
               drawStartY = (if drawStartY < 0 then 0 else drawStartY);
               drawEndY = (if drawEndY \<ge> SCREEN_HEIGHT then SCREEN_HEIGHT - 1 else drawEndY);
               r_center_f = (angle_diff + real_of_int FOV * 0.5) / (real_of_int FOV / real_of_int RAY_COUNT);
               screenX_center = real_of_int SCREEN_WIDTH - r_center_f * real_of_int column_width
                                  - real_of_int column_width * 0.5;
               drawStartX = \<lfloor>screenX_center - real_of_int sprite_w * 0.5\<rfloor>;
               drawEndX = \<lceil>screenX_center + real_of_int sprite_w * 0.5\<rceil>;
               texX_start = (if drawStartX < 512
                             then c_int ((512 - real_of_int drawStartX) * real_of_int TEXTURE_SIZE
                                           / real_of_int sprite_w)
                             else 0);
               drawStartX = (if drawStartX < 512 then 512 else drawStartX);
               drawEndX = (if drawEndX \<ge> SCREEN_WIDTH then SCREEN_WIDTH - 1 else drawEndX)
           in if drawEndX < 512 \<or> drawStartX \<ge> SCREEN_WIDTH then None
              else Some \<lparr>sprite_h = sprite_h, sprite_w = sprite_w,
                          drawStartX = drawStartX, drawEndX = drawEndX,
                          drawStartY = drawStartY, drawEndY = drawEndY,
                          texX_start = texX_start, texY_start = texY_start\<rparr>)"

text \<open>
  The two ray indices and the interpolation factor for screen column \<open>x\<close>, after clamping,
  and the wall distance interpolated from them.
\<close>

definition depth_sample :: "int \<Rightarrow> int \<Rightarrow> int \<times> int \<times> real" where
  "depth_sample column_width x =
     (let r_f = (real_of_int SCREEN_WIDTH - (real_of_int x + 0.5)) / real_of_int column_width;
          r0 = \<lfloor>r_f\<rfloor>;
          t = r_f - real_of_int r0;
          r1 = r0 + 1;
          t = (if r0 < 0 then 0 else t);
          r0 = (if r0 < 0 then 0 else r0);
          t = (if r1 \<ge> RAY_COUNT then 0 else t);
          r1 = (if r1 \<ge> RAY_COUNT then RAY_COUNT - 1 else r1)
      in (r0, r1, t))"

definition wall_d :: "real list \<Rightarrow> int \<Rightarrow> int \<Rightarrow> real" where
  "wall_d wall_distances column_width x =
     (case depth_sample column_width x of
        (r0, r1, t) \<Rightarrow> (1 - t) * wall_distances ! nat r0 + t * wall_distances ! nat r1)"

text \<open>
  The texture coordinates of a screen column and row.
\<close>

definition sprite_texX :: "sprite_rect \<Rightarrow> int \<Rightarrow> int" where
  "sprite_texX rect x =
     (let texX = texX_start rect
                   + c_int (real_of_int (x - drawStartX rect) * real_of_int TEXTURE_SIZE
                              / real_of_int (sprite_w rect))
      in if texX < 0 then 0 else if texX \<ge> TEXTURE_SIZE then TEXTURE_SIZE - 1 else texX)"

definition sprite_texY :: "sprite_rect \<Rightarrow> int \<Rightarrow> int" where
  "sprite_texY rect y =
     (let texY = texY_start rect
                   + c_int (real_of_int (y - drawStartY rect) * real_of_int TEXTURE_SIZE
                              / real_of_int (sprite_h rect))
      in if texY < 0 then 0 else if texY \<ge> TEXTURE_SIZE then TEXTURE_SIZE - 1 else texY)"

text \<open>
  The colour written for a texel. The code takes the three colour channels of the texel,
  darkens each one and packs them under an opaque alpha. The darkened channel
  \<^verbatim>\<open>(uint32_t)(c * dark)\<close> is a product in single precision, truncated, with \<^verbatim>\<open>dark\<close> the
  brightness factor of the sprite's distance; its value depends on the rounding of
  single-precision arithmetic, which is not modelled, so it is the parameter \<open>darken\<close>, a function
  of the channel and of the distance.
\<close>

definition shade_sprite :: "(32 word \<Rightarrow> real \<Rightarrow> 32 word) \<Rightarrow> 32 word \<Rightarrow> real \<Rightarrow> 32 word" where
  "shade_sprite darken color sdist =
     (let r = darken (drop_bit 16 color AND 0xFF) sdist;
          g = darken (drop_bit 8 color AND 0xFF) sdist;
          b = darken (color AND 0xFF) sdist
      in 0xFF000000 OR push_bit 16 r OR push_bit 8 g OR b)"

text \<open>
  One pixel, one column (with its depth test) and the whole rendering of a sprite. The
  texture table \<^verbatim>\<open>r_get_sprite\<close> lives in the asset header and is a parameter: a function from
  the sprite type to an array of 64 by 64 pixels.
\<close>

definition sprite_pixel ::
  "(32 word \<Rightarrow> real \<Rightarrow> 32 word) \<Rightarrow> 32 word list \<Rightarrow> real \<Rightarrow> sprite_rect \<Rightarrow> int \<Rightarrow> int \<Rightarrow> framebuffer \<Rightarrow> framebuffer" where
  "sprite_pixel darken tex sdist rect x y pixels =
     (let color = tex ! nat (sprite_texY rect y * TEXTURE_SIZE + sprite_texX rect x)
      in if color = 0xFFFF00FF then pixels
         else r_drawpoint x y (shade_sprite darken color sdist) pixels)"

definition sprite_column ::
  "(32 word \<Rightarrow> real \<Rightarrow> 32 word) \<Rightarrow> real list \<Rightarrow> int \<Rightarrow> real \<Rightarrow> 32 word list \<Rightarrow> real \<Rightarrow> sprite_rect \<Rightarrow> int
     \<Rightarrow> framebuffer \<Rightarrow> framebuffer" where
  "sprite_column darken wall_distances column_width perpDist tex sdist rect x pixels =
     (if perpDist > wall_d wall_distances column_width x - 0.0005 then pixels
      else for_loop (drawStartY rect) (drawEndY rect) (sprite_pixel darken tex sdist rect x) pixels)"

definition render_sprite ::
  "(32 word \<Rightarrow> real \<Rightarrow> 32 word) \<Rightarrow> real \<Rightarrow> real \<Rightarrow> real \<Rightarrow> real list \<Rightarrow> int \<Rightarrow> (int \<Rightarrow> 32 word list) \<Rightarrow> sprite
     \<Rightarrow> framebuffer \<Rightarrow> framebuffer" where
  "render_sprite darken px py pangle wall_distances column_width r_get_sprite spr pixels =
     (let angle_diff = sprite_angle_diff px py pangle spr;
          perpDist = sprite_dist spr * cos (m_deg_to_rad angle_diff)
      in case sprite_footprint angle_diff perpDist column_width of
           None \<Rightarrow> pixels
         | Some rect \<Rightarrow>
             for_loop (drawStartX rect) (drawEndX rect)
               (sprite_column darken wall_distances column_width perpDist (r_get_sprite (sprite_type spr))
                  (sprite_dist spr) rect)
               pixels)"

definition r_render_sprites ::
  "(32 word \<Rightarrow> real \<Rightarrow> 32 word) \<Rightarrow> real \<Rightarrow> real \<Rightarrow> real \<Rightarrow> real list \<Rightarrow> int \<Rightarrow> (int \<Rightarrow> 32 word list)
     \<Rightarrow> framebuffer \<Rightarrow> framebuffer" where
  "r_render_sprites darken px py pangle wall_distances column_width r_get_sprite pixels =
     foldl (\<lambda>pixels spr. render_sprite darken px py pangle wall_distances column_width r_get_sprite spr pixels)
       pixels (sort_sprites (collect_sprites px py))"

text \<open>
  The framebuffer index of the pixel at column \<open>x\<close> and row \<open>y\<close>.
\<close>

definition pixel_index :: "int \<Rightarrow> int \<Rightarrow> nat" where
  "pixel_index x y = nat (SCREEN_WIDTH * y + x)"

subsection \<open>Vocabulary of the ray-casting properties\<close>

text \<open>
  A point lies in the grid when its cell indices are within the 8 by 8 table; \<open>cell_code\<close>
  is the map code of the cell of a point. A walled grid has 64 non-negative codes and a
  nonzero code in every cell of its first and last row and column. \<open>wall_hit_ok\<close> says
  that a test result is a real hit: a point in the grid, in a cell with a positive code,
  with that code and the Euclidean distance from the player recorded.
\<close>

definition in_grid :: "real \<Rightarrow> real \<Rightarrow> bool" where
  "in_grid X Y \<longleftrightarrow> 0 \<le> \<lfloor>X / 64\<rfloor> \<and> \<lfloor>X / 64\<rfloor> < 8 \<and> 0 \<le> \<lfloor>Y / 64\<rfloor> \<and> \<lfloor>Y / 64\<rfloor> < 8"

definition cell_code :: "int list \<Rightarrow> real \<Rightarrow> real \<Rightarrow> int" where
  "cell_code g X Y = g ! nat (\<lfloor>Y / 64\<rfloor> * 8 + \<lfloor>X / 64\<rfloor>)"

definition walled_grid :: "int list \<Rightarrow> bool" where
  "walled_grid g \<longleftrightarrow>
     length g = 64 \<and> list_all (\<lambda>c. 0 \<le> c) g \<and>
     list_all (\<lambda>i. i mod 8 = 0 \<or> i mod 8 = 7 \<or> i div 8 = 0 \<or> i div 8 = 7 \<longrightarrow> g ! i \<noteq> 0) [0..<64]"

definition wall_hit_ok :: "int list \<Rightarrow> real \<Rightarrow> real \<Rightarrow> wall_hit \<Rightarrow> bool" where
  "wall_hit_ok g px py h \<longleftrightarrow>
     0 < wallType h \<and> in_grid (hitX h) (hitY h) \<and> wallType h = cell_code g (hitX h) (hitY h) \<and>
     distance h = sqrt ((hitX h - px) * (hitX h - px) + (hitY h - py) * (hitY h - py))"

section \<open>Framebuffer properties\<close>

text \<open>
  Claim C7. For every integer pair \<open>(x, y)\<close> outside the screen (\<open>x < 0\<close>, \<open>x \<ge> 1024\<close>,
  \<open>y < 0\<close> or \<open>y \<ge> 512\<close>) \<open>r_drawpoint\<close> returns the framebuffer as it was; for every pair
  inside the screen it stores the colour at index \<open>1024 * y + x\<close>, keeps the size of the
  buffer and leaves every other cell unchanged.
\<close>

theorem r_drawpoint_frame:
  "(x < 0 \<or> x \<ge> 1024 \<or> y < 0 \<or> y \<ge> 512 \<longrightarrow> r_drawpoint x y color pixels = pixels) \<and>
   (0 \<le> x \<and> x < 1024 \<and> 0 \<le> y \<and> y < 512 \<and> length pixels = 524288 \<longrightarrow>
      length (r_drawpoint x y color pixels) = 524288 \<and>
      r_drawpoint x y color pixels ! nat (1024 * y + x) = color \<and>
      (\<forall>i. i \<noteq> nat (1024 * y + x) \<longrightarrow> r_drawpoint x y color pixels ! i = pixels ! i))"
proof (intro conjI impI)
  assume "x < 0 \<or> x \<ge> 1024 \<or> y < 0 \<or> y \<ge> 512"
  then show "r_drawpoint x y color pixels = pixels"
    by (auto simp: r_drawpoint_def)
next
  assume inside: "0 \<le> x \<and> x < 1024 \<and> 0 \<le> y \<and> y < 512 \<and> length pixels = 524288"
  then have idx: "0 \<le> 1024 * y + x" "1024 * y + x < 524288"
    by linarith+
  then have upd: "r_drawpoint x y color pixels = pixels[nat (1024 * y + x) := color]"
    using inside by (simp add: r_drawpoint_def)
  show "length (r_drawpoint x y color pixels) = 524288"
    using inside upd by simp
  have "nat (1024 * y + x) < length pixels"
    using inside idx by linarith
  then show "r_drawpoint x y color pixels ! nat (1024 * y + x) = color"
    using upd by simp
  show "\<forall>i. i \<noteq> nat (1024 * y + x) \<longrightarrow> r_drawpoint x y color pixels ! i = pixels ! i"
    using upd by simp
qed

theorem r_drawpoint_frame_witness:
  "r_drawpoint (- 1) 2 7 (replicate 524288 0) = replicate 524288 0 \<and>
   r_drawpoint 3 512 7 (replicate 524288 0) = replicate 524288 0 \<and>
   r_drawpoint 3 2 7 (replicate 524288 0) ! 2051 = 7 \<and>
   r_drawpoint 3 2 7 (replicate 524288 0) ! 2050 = 0"
  using r_drawpoint_frame [of "- 1" 2 7 "replicate 524288 0"]
    r_drawpoint_frame [of 3 512 7 "replicate 524288 0"]
    r_drawpoint_frame [of 3 2 7 "replicate 524288 0"]
  by simp

text \<open>
  Claim C10. After \<open>r_clearscreenbuffer\<close> every pixel of the framebuffer reads
  \<open>0xBBBBBBBB\<close>: \<^verbatim>\<open>memset\<close> stores the low byte \<open>0xBB\<close> of \<open>0xFFBBBBBB\<close> into every byte,
  so the alpha channel (the top byte) of the cleared background is \<open>0xBB\<close>, not \<open>0xFF\<close>.
  The block of 4 * 1024 * 512 bytes keeps its size.
\<close>

theorem r_clearscreenbuffer_pixels:
  "(ucast (0xFFBBBBBB :: 32 word) :: 8 word) = 0xBB \<and>
   (length buf = 2097152 \<longrightarrow> length (r_clearscreenbuffer buf) = 2097152) \<and>
   (\<forall>i < 524288. load_pixel (r_clearscreenbuffer buf) i = 0xBBBBBBBB \<and>
      drop_bit 24 (load_pixel (r_clearscreenbuffer buf) i) = 0xBB \<and>
      drop_bit 24 (load_pixel (r_clearscreenbuffer buf) i) \<noteq> 0xFF)"
proof -
  have px: "load_pixel (r_clearscreenbuffer buf) i = 0xBBBBBBBB" if "i < 524288" for i
    using that
    by (simp add: load_pixel_def r_clearscreenbuffer_def memset_def nth_append)
  have len: "length (r_clearscreenbuffer buf) = 2097152" if "length buf = 2097152"
    using that by (simp add: r_clearscreenbuffer_def memset_def)
  show ?thesis
    by (simp add: px len)
qed

theorem r_clearscreenbuffer_pixels_witness:
  "length (r_clearscreenbuffer (replicate 2097152 0)) = 2097152 \<and>
   load_pixel (r_clearscreenbuffer (replicate 2097152 0)) 0 = 0xBBBBBBBB \<and>
   load_pixel (r_clearscreenbuffer (replicate 2097152 0)) 524287 = 0xBBBBBBBB"
  using r_clearscreenbuffer_pixels [of "replicate 2097152 0"]
  by simp

section \<open>Line drawing properties\<close>

lemma bres_invI_x:
  "dy < dx \<Longrightarrow> 0 \<le> rx \<Longrightarrow> 0 \<le> ry \<Longrightarrow> err = err0 + rx * dy - ry * dx \<Longrightarrow>
   0 \<le> err \<Longrightarrow> err < dx \<Longrightarrow> 0 \<le> err0 \<Longrightarrow> err0 < dx \<Longrightarrow> bres_inv dx dy err0 rx ry err"
  by (simp add: bres_inv_def)

lemma bres_invI_y:
  "\<not> dy < dx \<Longrightarrow> 0 \<le> rx \<Longrightarrow> 0 \<le> ry \<Longrightarrow> err = err0 + rx * dy - ry * dx \<Longrightarrow>
   - dy < err \<Longrightarrow> err \<le> 0 \<Longrightarrow> - dy < err0 \<Longrightarrow> err0 \<le> 0 \<Longrightarrow> bres_inv dx dy err0 rx ry err"
  by (simp add: bres_inv_def)

lemma step_product:
  fixes r d :: int
  shows "(r - 1) * d = r * d - d"
  by (simp add: algebra_simps)

lemma product_ge:
  fixes r d :: int
  assumes "1 \<le> r" "0 \<le> d"
  shows "d \<le> r * d"
  using mult_right_mono [OF assms] by simp

lemma bres_step:
  assumes d: "0 \<le> dx" "0 \<le> dy"
    and inv: "bres_inv dx dy err0 rx ry err"
    and run: "\<not> (rx = 0 \<and> ry = 0)"
  shows "bres_inv dx dy err0 (if err > - dx then rx - 1 else rx) (if err < dy then ry - 1 else ry)
           ((if err > - dx then err - dy else err) + (if err < dy then dx else 0))"
    and "err > - dx \<or> err < dy"
proof -
  from inv have r: "0 \<le> rx" "0 \<le> ry" and e: "err = err0 + rx * dy - ry * dx"
    by (simp_all add: bres_inv_def)
  have A0: "rx * dy = 0" if "rx = 0"
    using that by simp
  have B0: "ry * dx = 0" if "ry = 0"
    using that by simp
  have A1: "dy \<le> rx * dy" if "1 \<le> rx"
    using that d(2) by (rule product_ge)
  have B1: "dx \<le> ry * dx" if "1 \<le> ry"
    using that d(1) by (rule product_ge)
  have cx: "rx = 0 \<or> 1 \<le> rx" and cy: "ry = 0 \<or> 1 \<le> ry"
    using r by linarith+
  have both: "bres_inv dx dy err0 (if err > - dx then rx - 1 else rx) (if err < dy then ry - 1 else ry)
           ((if err > - dx then err - dy else err) + (if err < dy then dx else 0)) \<and>
        (err > - dx \<or> err < dy)"
  proof (cases "dy < dx")
    case True
    with inv have b: "0 \<le> err" "err < dx" "0 \<le> err0" "err0 < dx"
      by (simp_all add: bres_inv_def)
    have rx1: "1 \<le> rx"
    proof (rule ccontr)
      assume "\<not> 1 \<le> rx"
      with cx have rx0: "rx = 0"
        by simp
      with run cy have "1 \<le> ry"
        by simp
      from A0 [OF rx0] B1 [OF this] e b show False
        by linarith
    qed
    have stepx: "err > - dx"
      using b by linarith
    show ?thesis
    proof (cases "err < dy")
      case stepy: True
      have ry1: "1 \<le> ry"
      proof (rule ccontr)
        assume "\<not> 1 \<le> ry"
        with cy have "ry = 0"
          by simp
        from B0 [OF this] A1 [OF rx1] e b stepy show False
          by linarith
      qed
      have "bres_inv dx dy err0 (rx - 1) (ry - 1) (err - dy + dx)"
        using True rx1 ry1 b stepy e d
        by (intro bres_invI_x) (auto simp: algebra_simps)
      with stepx stepy show ?thesis
        by simp
    next
      case nostepy: False
      have "bres_inv dx dy err0 (rx - 1) ry (err - dy)"
        using True rx1 r b nostepy e d
        by (intro bres_invI_x) (auto simp: algebra_simps)
      with stepx nostepy show ?thesis
        by simp
    qed
  next
    case False
    with inv run have b: "- dy < err" "err \<le> 0" "- dy < err0" "err0 \<le> 0"
      by (auto simp: bres_inv_def)
    have ry1: "1 \<le> ry"
    proof (rule ccontr)
      assume "\<not> 1 \<le> ry"
      with cy have ry0: "ry = 0"
        by simp
      with run cx have "1 \<le> rx"
        by simp
      from B0 [OF ry0] A1 [OF this] e b show False
        by linarith
    qed
    have stepy: "err < dy"
      using b by linarith
    show ?thesis
    proof (cases "err > - dx")
      case stepx: True
      have rx1: "1 \<le> rx"
      proof (rule ccontr)
        assume "\<not> 1 \<le> rx"
        with cx have "rx = 0"
          by simp
        from A0 [OF this] B1 [OF ry1] e b stepx show False
          by linarith
      qed
      have "bres_inv dx dy err0 (rx - 1) (ry - 1) (err - dy + dx)"
        using False rx1 ry1 b stepx e d
        by (intro bres_invI_y) (auto simp: algebra_simps)
      with stepx stepy show ?thesis
        by simp
    next
      case nostepx: False
      have "bres_inv dx dy err0 rx (ry - 1) (err + dx)"
        using False ry1 r b nostepx e d
        by (intro bres_invI_y) (auto simp: algebra_simps)
      with nostepx stepy show ?thesis
        by simp
    qed
  qed
  from both show "bres_inv dx dy err0 (if err > - dx then rx - 1 else rx) (if err < dy then ry - 1 else ry)
           ((if err > - dx then err - dy else err) + (if err < dy then dx else 0))"
    and "err > - dx \<or> err < dy"
    by simp_all
qed

lemma remaining_step:
  fixes sx :: int
  assumes "sx = 1 \<or> sx = - 1"
  shows "sx * (x1 - (x + sx)) = sx * (x1 - x) - 1" "sx * (x1 - x) = 0 \<longleftrightarrow> x = x1"
  using assms by auto

lemma int32_id: "is_int32 k \<Longrightarrow> int32 k = k"
  by (simp add: int32_def is_int32_def)

lemma int32_add_left: "int32 (int32 a + b) = int32 (a + b)"
  by (simp add: int32_def mod_simps ac_simps)

lemma bres_inv_range:
  assumes "0 \<le> dx" "0 \<le> dy" "bres_inv dx dy err0 rx ry err" "dy < dx \<or> 0 < dy"
  shows "- dy \<le> err" "err \<le> dx"
  using assms by (auto simp: bres_inv_def split: if_splits)

lemma step_inside:
  fixes sx :: int
  assumes "sx = 1 \<or> sx = - 1" "is_int32 x" "is_int32 x1" "0 \<le> sx * (x1 - (x + sx))"
  shows "is_int32 (x + sx)"
  using assms by (auto simp: is_int32_def)

text \<open>
  One turn of the loop on 32-bit values, for a line whose extents \<open>dx\<close> and \<open>dy\<close> are
  below \<open>2\<^sup>3\<^sup>1\<close>: no result leaves the range of \<^verbatim>\<open>int\<close>, so the wrap-around is invisible and
  the turn is a step of the invariant.
\<close>

lemma drawline_turn:
  fixes dx dy sx sy x1 y1 err0 :: int
  assumes d: "0 \<le> dx" "0 \<le> dy" and b: "dx < 2147483648" "dy < 2147483648"
    and sg: "sx = 1 \<or> sx = - 1" "sy = 1 \<or> sy = - 1"
    and r: "is_int32 x1" "is_int32 y1" "is_int32 x" "is_int32 y"
    and inv: "bres_inv dx dy err0 (sx * (x1 - x)) (sy * (y1 - y)) err"
    and run: "\<not> (x = x1 \<and> y = y1)"
  defines "err' \<equiv> (if err > - dx then err - dy else err) + (if err < dy then dx else 0)"
    and "x' \<equiv> (if err > - dx then x + sx else x)"
    and "y' \<equiv> (if err < dy then y + sy else y)"
  shows "bres_inv dx dy err0 (sx * (x1 - x')) (sy * (y1 - y')) err'"
    and "is_int32 x'" and "is_int32 y'"
    and "nat (sx * (x1 - x') + sy * (y1 - y')) < nat (sx * (x1 - x) + sy * (y1 - y))"
    and "(if err > int32 (- dx) then int32 (x + sx) else x) = x'"
    and "(if err < dy then int32 (y + sy) else y) = y'"
    and "(if err < dy then int32 ((if err > int32 (- dx) then int32 (err - dy) else err) + dx)
          else if err > int32 (- dx) then int32 (err - dy) else err) = err'"
proof -
  let ?rx = "sx * (x1 - x)" and ?ry = "sy * (y1 - y)"
  have run': "\<not> (?rx = 0 \<and> ?ry = 0)"
    using run remaining_step(2) [OF sg(1)] remaining_step(2) [OF sg(2)] by simp
  have rx': "sx * (x1 - x') = (if err > - dx then ?rx - 1 else ?rx)"
    by (simp add: x'_def remaining_step(1) [OF sg(1)])
  have ry': "sy * (y1 - y') = (if err < dy then ?ry - 1 else ?ry)"
    by (simp add: y'_def remaining_step(1) [OF sg(2)])
  show inv': "bres_inv dx dy err0 (sx * (x1 - x')) (sy * (y1 - y')) err'"
    unfolding rx' ry' err'_def by (rule bres_step(1) [OF d inv run'])
  have progress: "err > - dx \<or> err < dy"
    by (rule bres_step(2) [OF d inv run'])
  have nonneg: "0 \<le> sx * (x1 - x')" "0 \<le> sy * (y1 - y')"
    using inv' by (simp_all add: bres_inv_def)
  then show "nat (sx * (x1 - x') + sy * (y1 - y')) < nat (?rx + ?ry)"
    using progress unfolding rx' ry' by (auto split: if_splits)
  show x'r: "is_int32 x'"
  proof (cases "err > - dx")
    case True
    with nonneg(1) have "0 \<le> sx * (x1 - (x + sx))"
      by (simp add: x'_def)
    from step_inside [OF sg(1) r(3) r(1) this] True show ?thesis
      by (simp add: x'_def)
  next
    case False
    with r(3) show ?thesis
      by (simp add: x'_def)
  qed
  show y'r: "is_int32 y'"
  proof (cases "err < dy")
    case True
    with nonneg(2) have "0 \<le> sy * (y1 - (y + sy))"
      by (simp add: y'_def)
    from step_inside [OF sg(2) r(4) r(2) this] True show ?thesis
      by (simp add: y'_def)
  next
    case False
    with r(4) show ?thesis
      by (simp add: y'_def)
  qed
  have major: "dy < dx \<or> 0 < dy"
    using inv run' d by (auto simp: bres_inv_def split: if_splits)
  have "- dy \<le> err'" "err' \<le> dx"
    using bres_inv_range [OF d inv' major] by simp_all
  with b d have err'r: "is_int32 err'"
    by (simp add: is_int32_def)
  have neg: "int32 (- dx) = - dx"
    using d b by (intro int32_id) (simp add: is_int32_def)
  have xw: "int32 (x + sx) = x + sx" if "err > - dx"
    using x'r that by (simp add: x'_def int32_id)
  have yw: "int32 (y + sy) = y + sy" if "err < dy"
    using y'r that by (simp add: y'_def int32_id)
  have ew: "(if err < dy then int32 ((if err > - dx then int32 (err - dy) else err) + dx)
             else (if err > - dx then int32 (err - dy) else err)) = err'"
  proof (cases "err > - dx"; cases "err < dy")
    assume c: "err > - dx" "err < dy"
    have "int32 (int32 (err - dy) + dx) = int32 (err - dy + dx)"
      by (rule int32_add_left)
    also have "\<dots> = err - dy + dx"
      using err'r c by (intro int32_id) (simp add: err'_def)
    finally show ?thesis
      using c by (simp add: err'_def)
  next
    assume c: "err > - dx" "\<not> err < dy"
    have "int32 (err - dy) = err - dy"
      using err'r c by (intro int32_id) (simp add: err'_def)
    then show ?thesis
      using c by (simp add: err'_def)
  next
    assume c: "\<not> err > - dx" "err < dy"
    have "int32 (err + dx) = err + dx"
      using err'r c by (intro int32_id) (simp add: err'_def)
    then show ?thesis
      using c by (simp add: err'_def)
  next
    assume c: "\<not> err > - dx" "\<not> err < dy"
    then show ?thesis
      by (simp add: err'_def)
  qed
  show "(if err > int32 (- dx) then int32 (x + sx) else x) = x'"
    unfolding neg using xw by (simp add: x'_def)
  show "(if err < dy then int32 (y + sy) else y) = y'"
    using yw by (simp add: y'_def)
  show "(if err < dy then int32 ((if err > int32 (- dx) then int32 (err - dy) else err) + dx)
         else if err > int32 (- dx) then int32 (err - dy) else err) = err'"
    unfolding neg by (rule ew)
qed

lemma drawline_loop_runs:
  fixes dx dy sx sy x1 y1 err0 :: int
  assumes d: "0 \<le> dx" "0 \<le> dy" and b: "dx < 2147483648" "dy < 2147483648"
    and sg: "sx = 1 \<or> sx = - 1" "sy = 1 \<or> sy = - 1"
    and r: "is_int32 x1" "is_int32 y1"
  shows "is_int32 x \<Longrightarrow> is_int32 y \<Longrightarrow> bres_inv dx dy err0 (sx * (x1 - x)) (sy * (y1 - y)) err \<Longrightarrow>
    \<exists>ps. ps \<noteq> [] \<and> hd ps = (x, y) \<and> last ps = (x1, y1) \<and>
      (\<forall>(draw :: int \<Rightarrow> int \<Rightarrow> 'a \<Rightarrow> 'a) s.
         drawline_loop draw dx dy sx sy x1 y1 x y err s = Some (foldl (\<lambda>s (a, b). draw a b s) s ps)) \<and>
      (\<forall>(draw :: int \<Rightarrow> int \<Rightarrow> 'b \<Rightarrow> 'b) s.
         drawline_loop draw dx dy sx sy x1 y1 x y err s = Some (foldl (\<lambda>s (a, b). draw a b s) s ps))"
proof (induction "nat (sx * (x1 - x) + sy * (y1 - y))" arbitrary: x y err rule: less_induct)
  case less
  show ?case
  proof (cases "x = x1 \<and> y = y1")
    case True
    have "drawline_loop draw dx dy sx sy x1 y1 x y err s = Some (foldl (\<lambda>s (a, b). draw a b s) s [(x, y)])"
      for draw :: "int \<Rightarrow> int \<Rightarrow> 'a \<Rightarrow> 'a" and s
      using True by (subst drawline_loop.simps) simp
    moreover
    have "drawline_loop draw dx dy sx sy x1 y1 x y err s = Some (foldl (\<lambda>s (a, b). draw a b s) s [(x, y)])"
      for draw :: "int \<Rightarrow> int \<Rightarrow> 'b \<Rightarrow> 'b" and s
      using True by (subst drawline_loop.simps) simp
    ultimately have "[(x, y)] \<noteq> [] \<and> hd [(x, y)] = (x, y) \<and> last [(x, y)] = (x1, y1) \<and>
      (\<forall>(draw :: int \<Rightarrow> int \<Rightarrow> 'a \<Rightarrow> 'a) s.
         drawline_loop draw dx dy sx sy x1 y1 x y err s = Some (foldl (\<lambda>s (a, b). draw a b s) s [(x, y)])) \<and>
      (\<forall>(draw :: int \<Rightarrow> int \<Rightarrow> 'b \<Rightarrow> 'b) s.
         drawline_loop draw dx dy sx sy x1 y1 x y err s = Some (foldl (\<lambda>s (a, b). draw a b s) s [(x, y)]))"
      using True by simp
    then show ?thesis
      by (rule exI)
  next
    case False
    define x' where "x' = (if err > - dx then x + sx else x)"
    define y' where "y' = (if err < dy then y + sy else y)"
    define err' where "err' = (if err > - dx then err - dy else err) + (if err < dy then dx else 0)"
    note turn = drawline_turn [OF d b sg r less.prems False, folded x'_def y'_def err'_def]
    from less.hyps [OF turn(4) turn(2) turn(3) turn(1)]
    obtain ps where ps: "ps \<noteq> []" "hd ps = (x', y')" "last ps = (x1, y1)"
      "\<And>(draw :: int \<Rightarrow> int \<Rightarrow> 'a \<Rightarrow> 'a) s.
         drawline_loop draw dx dy sx sy x1 y1 x' y' err' s = Some (foldl (\<lambda>s (a, b). draw a b s) s ps)"
      "\<And>(draw :: int \<Rightarrow> int \<Rightarrow> 'b \<Rightarrow> 'b) s.
         drawline_loop draw dx dy sx sy x1 y1 x' y' err' s = Some (foldl (\<lambda>s (a, b). draw a b s) s ps)"
      by blast
    have unfold_a: "drawline_loop draw dx dy sx sy x1 y1 x y err s =
        drawline_loop draw dx dy sx sy x1 y1 x' y' err' (draw x y s)"
      for draw :: "int \<Rightarrow> int \<Rightarrow> 'a \<Rightarrow> 'a" and s
      using False by (subst drawline_loop.simps) (auto simp: Let_def turn(5,6,7))
    have unfold_b: "drawline_loop draw dx dy sx sy x1 y1 x y err s =
        drawline_loop draw dx dy sx sy x1 y1 x' y' err' (draw x y s)"
      for draw :: "int \<Rightarrow> int \<Rightarrow> 'b \<Rightarrow> 'b" and s
      using False by (subst drawline_loop.simps) (auto simp: Let_def turn(5,6,7))
    have "(x, y) # ps \<noteq> [] \<and> hd ((x, y) # ps) = (x, y) \<and> last ((x, y) # ps) = (x1, y1) \<and>
      (\<forall>(draw :: int \<Rightarrow> int \<Rightarrow> 'a \<Rightarrow> 'a) s.
         drawline_loop draw dx dy sx sy x1 y1 x y err s = Some (foldl (\<lambda>s (a, b). draw a b s) s ((x, y) # ps))) \<and>
      (\<forall>(draw :: int \<Rightarrow> int \<Rightarrow> 'b \<Rightarrow> 'b) s.
         drawline_loop draw dx dy sx sy x1 y1 x y err s = Some (foldl (\<lambda>s (a, b). draw a b s) s ((x, y) # ps)))"
      using ps by (simp add: unfold_a unfold_b)
    then show ?thesis
      by (rule exI)
  qed
qed

lemma c_div_2:
  "0 \<le> a \<Longrightarrow> c_div a 2 = a div 2" "0 \<le> a \<Longrightarrow> c_div (- a) 2 = - (a div 2)"
  by (auto simp: c_div_def)

lemma bres_inv_initial:
  fixes dx dy :: int
  assumes "0 \<le> dx" "0 \<le> dy"
  shows "bres_inv dx dy (c_div (if dx > dy then dx else - dy) 2) dx dy
           (c_div (if dx > dy then dx else - dy) 2)"
proof (cases "dx > dy")
  case True
  with assms show ?thesis
    by (intro bres_invI_x) (simp_all add: c_div_2)
next
  case False
  show ?thesis
  proof (cases "dy = 0")
    case True
    with False assms show ?thesis
      by (simp add: bres_inv_def c_div_def)
  next
    case dy: False
    with False assms show ?thesis
      by (intro bres_invI_y) (auto simp: c_div_2)
  qed
qed

text \<open>
  A line whose horizontal extent is not below \<open>2\<^sup>3\<^sup>1\<close>: the difference of the abscissas wraps
  to a negative \<open>dx\<close>, and from then on neither test of the loop holds, so no coordinate ever
  changes and the end point is never reached.
\<close>

lemma drawline_loop_stuck:
  assumes "drawline_loop draw dx dy sx sy x1 y1 x0 y0 err s = Some r"
  shows "\<not> (dx = - 294967296 \<and> dy = 0 \<and> err = 0 \<and> x0 \<noteq> x1)"
  by (rule drawline_loop.raw_induct [where P = "\<lambda>draw dx dy sx sy x1 y1 x0 y0 err s r.
        \<not> (dx = - 294967296 \<and> dy = 0 \<and> err = 0 \<and> x0 \<noteq> x1)", OF _ assms])
    (auto simp: Let_def int32_def split: if_splits)

lemma drawline_with_stuck: "drawline_with draw (- 2000000000) 0 2000000000 0 s = None"
proof (cases "drawline_with draw (- 2000000000) 0 2000000000 0 s")
  case None
  then show ?thesis .
next
  case (Some r)
  then have "drawline_loop draw (- 294967296) 0 1 (- 1) 2000000000 0 (- 2000000000) 0 0 s = Some r"
    by (simp add: drawline_with_def int32_def c_div_def)
  from drawline_loop_stuck [OF this] show ?thesis
    by simp
qed

text \<open>
  Claim C8 states that \<^verbatim>\<open>r_drawline\<close> terminates for all integer endpoints. It does not:
  for the endpoints \<open>(-2000000000, 0)\<close> and \<open>(2000000000, 0)\<close>, both of them values of
  \<^verbatim>\<open>int\<close>, the loop never ends, neither when it draws into the framebuffer nor when it only
  records the points.
\<close>

theorem r_drawline_diverges_counterexample:
  "is_int32 (- 2000000000) \<and> is_int32 2000000000 \<and>
   r_drawline_points (- 2000000000) 0 2000000000 0 = None \<and>
   r_drawline (- 2000000000) 0 2000000000 0 0xFF000000 (replicate 524288 0) = None"
  by (simp add: r_drawline_points_def r_drawline_def drawline_with_stuck is_int32_def)

text \<open>
  Claim C8, amended. For endpoints that are values of \<^verbatim>\<open>int\<close> and lie less than \<open>2\<^sup>3\<^sup>1\<close> apart
  along each axis, \<open>r_drawline\<close> terminates. All its arithmetic is on 32-bit integers. The
  points it visits, in order, start with \<open>(x0, y0)\<close> and end with \<open>(x1, y1)\<close>, and its effect
  on the framebuffer is that of calling \<open>r_drawpoint\<close> on each of them.
\<close>

theorem r_drawline_terminates_endpoints:
  assumes "is_int32 x0" "is_int32 y0" "is_int32 x1" "is_int32 y1"
    and "\<bar>x1 - x0\<bar> < 2147483648" "\<bar>y1 - y0\<bar> < 2147483648"
  shows "\<exists>ps. r_drawline_points x0 y0 x1 y1 = Some ps \<and> ps \<noteq> [] \<and>
        hd ps = (x0, y0) \<and> last ps = (x1, y1) \<and>
        r_drawline x0 y0 x1 y1 color pixels =
          Some (foldl (\<lambda>fb (x, y). r_drawpoint x y color fb) pixels ps)"
proof -
  define dx where "dx = (if x1 > x0 then x1 - x0 else x0 - x1)"
  define dy where "dy = (if y1 > y0 then y1 - y0 else y0 - y1)"
  define sx :: int where "sx = (if x0 < x1 then 1 else - 1)"
  define sy :: int where "sy = (if y0 < y1 then 1 else - 1)"
  define err where "err = c_div (if dx > dy then dx else - dy) 2"
  have d: "0 \<le> dx" "0 \<le> dy"
    by (simp_all add: dx_def dy_def)
  have b: "dx < 2147483648" "dy < 2147483648"
    using assms(5,6) by (auto simp: dx_def dy_def)
  have wdx: "(if x1 > x0 then int32 (x1 - x0) else int32 (x0 - x1)) = dx"
    using assms(5) by (auto simp: dx_def int32_id is_int32_def)
  have wdy: "(if y1 > y0 then int32 (y1 - y0) else int32 (y0 - y1)) = dy"
    using assms(6) by (auto simp: dy_def int32_id is_int32_def)
  have wneg: "int32 (- dy) = - dy"
    using d b by (intro int32_id) (simp add: is_int32_def)
  have sg: "sx = 1 \<or> sx = - 1" "sy = 1 \<or> sy = - 1"
    by (simp_all add: sx_def sy_def)
  have rem: "sx * (x1 - x0) = dx" "sy * (y1 - y0) = dy"
    by (simp_all add: sx_def sy_def dx_def dy_def)
  have "bres_inv dx dy err (sx * (x1 - x0)) (sy * (y1 - y0)) err"
    unfolding rem err_def by (rule bres_inv_initial [OF d])
  from drawline_loop_runs [OF d b sg assms(3,4,1,2) this,
      where ?'a = framebuffer and ?'b = "(int \<times> int) list"]
  obtain ps where ps: "ps \<noteq> []" "hd ps = (x0, y0)" "last ps = (x1, y1)"
    "\<And>(draw :: int \<Rightarrow> int \<Rightarrow> framebuffer \<Rightarrow> framebuffer) s.
       drawline_loop draw dx dy sx sy x1 y1 x0 y0 err s = Some (foldl (\<lambda>s (a, b). draw a b s) s ps)"
    "\<And>(draw :: int \<Rightarrow> int \<Rightarrow> (int \<times> int) list \<Rightarrow> (int \<times> int) list) s.
       drawline_loop draw dx dy sx sy x1 y1 x0 y0 err s = Some (foldl (\<lambda>s (a, b). draw a b s) s ps)"
    by blast
  have trace: "foldl (\<lambda>s (a, b). s @ [(a, b)]) acc qs = acc @ qs" for acc qs :: "(int \<times> int) list"
    by (induction qs arbitrary: acc) auto
  have with_loop: "drawline_with draw x0 y0 x1 y1 s = drawline_loop draw dx dy sx sy x1 y1 x0 y0 err s"
    for draw :: "int \<Rightarrow> int \<Rightarrow> 's \<Rightarrow> 's" and s
    unfolding drawline_with_def Let_def wdx wdy wneg
    by (simp flip: sx_def sy_def err_def)
  have "r_drawline_points x0 y0 x1 y1 = Some ps"
    using ps(5) [of "\<lambda>x y ps. ps @ [(x, y)]" "[]"]
    by (simp add: r_drawline_points_def with_loop trace)
  moreover have "r_drawline x0 y0 x1 y1 color pixels =
      Some (foldl (\<lambda>fb (x, y). r_drawpoint x y color fb) pixels ps)"
    using ps(4) [of "\<lambda>x y. r_drawpoint x y color" pixels]
    by (simp add: r_drawline_def with_loop)
  ultimately show ?thesis
    using ps(1-3) by blast
qed

lemma short_line_points: "r_drawline_points 0 0 3 1 = Some [(0, 0), (1, 0), (2, 1), (3, 1)]"
  by (simp add: r_drawline_points_def drawline_with_def c_div_def int32_def drawline_loop.simps Let_def)

theorem r_drawline_terminates_endpoints_witness:
  "is_int32 0 \<and> is_int32 3 \<and> is_int32 1 \<and> \<bar>3 - 0 :: int\<bar> < 2147483648 \<and> \<bar>1 - 0 :: int\<bar> < 2147483648 \<and>
   r_drawline_points 0 0 3 1 = Some [(0, 0), (1, 0), (2, 1), (3, 1)] \<and>
   r_drawline 0 0 3 1 7 (replicate 524288 0) =
     Some (foldl (\<lambda>fb (x, y). r_drawpoint x y 7 fb) (replicate 524288 0)
             [(0, 0), (1, 0), (2, 1), (3, 1)])"
  using r_drawline_terminates_endpoints [of 0 0 3 1 7 "replicate 524288 0"] short_line_points
  by (auto simp: is_int32_def)

section \<open>Collision probe properties\<close>

lemma map_walls_length: "length map_walls = 64"
  by (simp add: map_walls_def)

lemma map_sprites_length: "length map_sprites = 64"
  by (simp add: map_sprites_def)

lemma map_walls_nonneg: "i < 64 \<Longrightarrow> 0 \<le> map_walls ! i"
proof -
  have "list_all (\<lambda>v. 0 \<le> v) map_walls"
    by (simp add: map_walls_def)
  then show "i < 64 \<Longrightarrow> 0 \<le> map_walls ! i"
    by (simp add: list_all_length map_walls_length)
qed

lemma map_sprites_nonneg: "i < 64 \<Longrightarrow> 0 \<le> map_sprites ! i"
proof -
  have "list_all (\<lambda>v. 0 \<le> v) map_sprites"
    by (simp add: map_sprites_def)
  then show "i < 64 \<Longrightarrow> 0 \<le> map_sprites ! i"
    by (simp add: list_all_length map_sprites_length)
qed

lemma cell_index_bound:
  "0 \<le> cx \<Longrightarrow> cx < 8 \<Longrightarrow> 0 \<le> cy \<Longrightarrow> cy < 8 \<Longrightarrow> nat (cy * 8 + cx) < 64"
  by linarith

text \<open>
  Claim C4. \<open>check_collision x y\<close> is true exactly when the cell
  \<open>(\<lfloor>x / 64\<rfloor>, \<lfloor>y / 64\<rfloor>)\<close> lies outside the 8 by 8 grid, or its wall code is nonzero,
  or its sprite code is one of 1 to 7. In particular it is false on a cell with wall code 0
  and sprite code 0 or 8, and true for every coordinate outside the grid extent
  \<open>[0, 512) \<times> [0, 512)\<close>. The model is a function of \<open>x\<close> and \<open>y\<close> alone: the C function
  reads two constant tables and writes nothing.
\<close>

theorem check_collision_iff:
  "(check_collision x y \<longleftrightarrow>
      \<not> (0 \<le> \<lfloor>x / 64\<rfloor> \<and> \<lfloor>x / 64\<rfloor> < 8 \<and> 0 \<le> \<lfloor>y / 64\<rfloor> \<and> \<lfloor>y / 64\<rfloor> < 8)
      \<or> map_walls ! nat (\<lfloor>y / 64\<rfloor> * 8 + \<lfloor>x / 64\<rfloor>) \<noteq> 0
      \<or> map_sprites ! nat (\<lfloor>y / 64\<rfloor> * 8 + \<lfloor>x / 64\<rfloor>) \<in> {1..7}) \<and>
   (0 \<le> \<lfloor>x / 64\<rfloor> \<and> \<lfloor>x / 64\<rfloor> < 8 \<and> 0 \<le> \<lfloor>y / 64\<rfloor> \<and> \<lfloor>y / 64\<rfloor> < 8
      \<and> map_walls ! nat (\<lfloor>y / 64\<rfloor> * 8 + \<lfloor>x / 64\<rfloor>) = 0
      \<and> map_sprites ! nat (\<lfloor>y / 64\<rfloor> * 8 + \<lfloor>x / 64\<rfloor>) \<in> {0, 8}
      \<longrightarrow> \<not> check_collision x y) \<and>
   (x < 0 \<or> x \<ge> 512 \<or> y < 0 \<or> y \<ge> 512 \<longrightarrow> check_collision x y)"
proof -
  define cx where "cx = \<lfloor>x / 64\<rfloor>"
  define cy where "cy = \<lfloor>y / 64\<rfloor>"
  have main: "check_collision x y \<longleftrightarrow>
      \<not> (0 \<le> cx \<and> cx < 8 \<and> 0 \<le> cy \<and> cy < 8)
      \<or> map_walls ! nat (cy * 8 + cx) \<noteq> 0
      \<or> map_sprites ! nat (cy * 8 + cx) \<in> {1..7}"
  proof (cases "0 \<le> cx \<and> cx < 8 \<and> 0 \<le> cy \<and> cy < 8")
    case False
    then show ?thesis
      by (auto simp: check_collision_def cx_def cy_def Let_def)
  next
    case True
    then have "nat (cy * 8 + cx) < 64"
      by (simp add: cell_index_bound)
    then have "0 \<le> map_walls ! nat (cy * 8 + cx)" "0 \<le> map_sprites ! nat (cy * 8 + cx)"
      by (simp_all add: map_walls_nonneg map_sprites_nonneg)
    with True show ?thesis
      by (auto simp: check_collision_def cx_def cy_def Let_def)
  qed
  have out: "check_collision x y" if "x < 0 \<or> x \<ge> 512 \<or> y < 0 \<or> y \<ge> 512"
  proof -
    have "cx < 0 \<or> cx \<ge> 8 \<or> cy < 0 \<or> cy \<ge> 8"
      using that unfolding cx_def cy_def by (auto simp: floor_less_iff le_floor_iff)
    then show ?thesis
      using main by auto
  qed
  show ?thesis
    using main out unfolding cx_def cy_def by auto
qed

theorem check_collision_iff_witness:
  "\<not> check_collision 200 195 \<and> check_collision 32 32 \<and> check_collision 96 96
   \<and> \<not> check_collision 224 160 \<and> check_collision (- 5) 100 \<and> check_collision 100 512"
  using check_collision_iff [of 200 195] check_collision_iff [of 32 32]
    check_collision_iff [of 96 96] check_collision_iff [of 224 160]
    check_collision_iff [of "- 5" 100] check_collision_iff [of 100 512]
  by (simp add: map_walls_def map_sprites_def)


section \<open>Shading properties\<close>

text \<open>
  Claim C2 states that the brightness factor of every surface kind is non-increasing in
  the distance and never below that surface's minimum brightness, also for vertical-face
  wall hits. The 0.8 darkening of a vertical face is applied after the clamp at
  \<open>WALL_MIN_BRIGHTNESS\<close>, so a vertical face at distance 320 has brightness 0.56, below 0.7.
\<close>

theorem wall_darkening_counterexample: "wall_darkening True 320 < WALL_MIN_BRIGHTNESS"
  by (simp add: wall_darkening_def)

lemma wall_darkening_mono: "d1 \<le> d2 \<Longrightarrow> wall_darkening v d2 \<le> wall_darkening v d1"
  by (auto simp: wall_darkening_def Let_def)

lemma floor_darkening_mono: "d1 \<le> d2 \<Longrightarrow> floor_darkening d2 \<le> floor_darkening d1"
  by (auto simp: floor_darkening_def Let_def)

lemma ceiling_darkening_mono: "d1 \<le> d2 \<Longrightarrow> ceiling_darkening d2 \<le> ceiling_darkening d1"
  by (auto simp: ceiling_darkening_def Let_def)

lemma sprite_dark_mono: "d1 \<le> d2 \<Longrightarrow> sprite_dark d2 \<le> sprite_dark d1"
  by (auto simp: sprite_dark_def Let_def)

text \<open>
  Claim C2, amended. For each surface kind the brightness factor is non-increasing in the
  distance. It is never below the surface's minimum brightness for floor, ceiling, sprites
  and horizontal-face wall hits; for vertical-face wall hits it is never below 0.8 times
  \<open>WALL_MIN_BRIGHTNESS\<close>.
\<close>

theorem darkening_monotone_bounded:
  "(d1 \<le> d2 \<longrightarrow>
      wall_darkening v d2 \<le> wall_darkening v d1 \<and> floor_darkening d2 \<le> floor_darkening d1 \<and>
      ceiling_darkening d2 \<le> ceiling_darkening d1 \<and> sprite_dark d2 \<le> sprite_dark d1) \<and>
   WALL_MIN_BRIGHTNESS \<le> wall_darkening False d \<and>
   0.8 * WALL_MIN_BRIGHTNESS \<le> wall_darkening True d \<and>
   FLOOR_MIN_BRIGHTNESS \<le> floor_darkening d \<and>
   CEILING_MIN_BRIGHTNESS \<le> ceiling_darkening d \<and>
   SPRITE_MIN_BRIGHTNESS \<le> sprite_dark d"
proof -
  have bounds: "WALL_MIN_BRIGHTNESS \<le> wall_darkening False d"
    "0.8 * WALL_MIN_BRIGHTNESS \<le> wall_darkening True d"
    "FLOOR_MIN_BRIGHTNESS \<le> floor_darkening d"
    "CEILING_MIN_BRIGHTNESS \<le> ceiling_darkening d"
    "SPRITE_MIN_BRIGHTNESS \<le> sprite_dark d"
    by (simp_all add: wall_darkening_def floor_darkening_def ceiling_darkening_def
        sprite_dark_def Let_def)
  show ?thesis
    using bounds wall_darkening_mono floor_darkening_mono ceiling_darkening_mono sprite_dark_mono
    by blast
qed

theorem darkening_monotone_bounded_witness:
  "(100 :: real) \<le> 320 \<and> wall_darkening True 320 \<le> wall_darkening True 100 \<and>
   wall_darkening True 320 = 0.56 \<and> wall_darkening False 320 = 0.7 \<and>
   sprite_dark 320 \<le> sprite_dark 100"
  using darkening_monotone_bounded [of 100 320 True 320]
  by (simp add: wall_darkening_def)


section \<open>Ray casting properties\<close>

text \<open>
  Bounds on the cosine from its Taylor polynomial of degree four, with the Lagrange
  remainder of degree six.
\<close>

lemma cos_coeff_values:
  "cos_coeff (Suc 0) = 0" "cos_coeff 2 = - 1 / 2" "cos_coeff 3 = 0" "cos_coeff 4 = 1 / 24" "cos_coeff 5 = 0"
  by (simp_all add: cos_coeff_def fact_numeral)

lemma cos_sum6: "(\<Sum>m<6. cos_coeff m * x ^ m) = 1 - x\<^sup>2 / 2 + x ^ 4 / 24" for x :: real
proof -
  have "{..<6::nat} = {0, 1, 2, 3, 4, 5}"
    by auto
  then show ?thesis
    by (simp add: cos_coeff_values)
qed

lemma cos_taylor:
  fixes x :: real
  shows "1 - x\<^sup>2 / 2 + x ^ 4 / 24 - x ^ 6 / 720 \<le> cos x"
    and "cos x \<le> 1 - x\<^sup>2 / 2 + x ^ 4 / 24 + x ^ 6 / 720"
proof -
  from Maclaurin_cos_expansion [of x 6] obtain t where
    t: "cos x = (\<Sum>m<6. cos_coeff m * x ^ m) + (cos (t + 1/2 * real 6 * pi) / fact 6) * x ^ 6"
    by blast
  have f: "fact 6 = (720 :: real)"
    by (simp add: fact_numeral)
  define c where "c = cos (t + 1/2 * real 6 * pi)"
  have c: "- 1 \<le> c" "c \<le> 1"
    by (simp_all add: c_def)
  have e: "cos x = 1 - x\<^sup>2 / 2 + x ^ 4 / 24 + c * (x ^ 6 / 720)"
    unfolding t cos_sum6 f c_def by simp
  have nn: "0 \<le> x ^ 6 / 720"
    by simp
  have "- 1 * (x ^ 6 / 720) \<le> c * (x ^ 6 / 720)" "c * (x ^ 6 / 720) \<le> 1 * (x ^ 6 / 720)"
    using c nn by (intro mult_right_mono; simp)+
  then show "1 - x\<^sup>2 / 2 + x ^ 4 / 24 - x ^ 6 / 720 \<le> cos x"
    and "cos x \<le> 1 - x\<^sup>2 / 2 + x ^ 4 / 24 + x ^ 6 / 720"
    unfolding e by simp_all
qed

lemma raycast_distances_length: "length (raycast_distances g px py pangle n rangle) = n"
  by (induction n arbitrary: rangle) (simp_all add: Let_def)

lemma raycast_distances_nth:
  "r < n \<Longrightarrow> raycast_distances g px py pangle n rangle ! r =
     distance (cast_ray g px py (rangle + real r * (15 / 64)))
       * cos (m_deg_to_rad (rangle + real r * (15 / 64) - pangle))"
proof (induction n arbitrary: rangle r)
  case 0
  then show ?case by simp
next
  case (Suc n)
  show ?case
  proof (cases r)
    case 0
    then show ?thesis by (simp add: Let_def)
  next
    case (Suc k)
    with Suc.prems have "k < n" by simp
    have ang: "rangle + 15 / 64 + real k * (15 / 64) = rangle + real (Suc k) * (15 / 64)"
      by (simp add: algebra_simps)
    have "raycast_distances g px py pangle (Suc n) rangle ! r =
        raycast_distances g px py pangle n (rangle + 15 / 64) ! k"
      using Suc by (simp add: Let_def)
    also have "\<dots> = distance (cast_ray g px py (rangle + 15 / 64 + real k * (15 / 64)))
       * cos (m_deg_to_rad (rangle + 15 / 64 + real k * (15 / 64) - pangle))"
      using Suc.IH [OF \<open>k < n\<close>, of "rangle + 15 / 64"] .
    finally show ?thesis
      unfolding ang Suc .
  qed
qed

lemma cast_ray_select:
  "cast_ray g px py rangle =
     select_hit (horizontal_candidate g px py rangle) (vertical_candidate g px py rangle)"
  by (simp add: cast_ray_def horizontal_candidate_def vertical_candidate_def Let_def)

text \<open>
  Claim C1, amended. The hit reported for a ray is the candidate with the smaller distance:
  the horizontal candidate when its distance is strictly smaller, the vertical one when its
  distance is strictly smaller, and the vertical candidate (flag, hit point, material and
  distance) when the two distances are equal.
\<close>

theorem cast_ray_nearer_hit:
  "distance (cast_ray g px py rangle) =
     min (distance (horizontal_candidate g px py rangle))
         (distance (vertical_candidate g px py rangle)) \<and>
   (distance (horizontal_candidate g px py rangle) < distance (vertical_candidate g px py rangle)
    \<longrightarrow> cast_ray g px py rangle =
          wall_hit.extend (horizontal_candidate g px py rangle) \<lparr>hitVertical = False\<rparr>) \<and>
   (distance (horizontal_candidate g px py rangle) > distance (vertical_candidate g px py rangle)
    \<longrightarrow> cast_ray g px py rangle =
          wall_hit.extend (vertical_candidate g px py rangle) \<lparr>hitVertical = True\<rparr>) \<and>
   (distance (horizontal_candidate g px py rangle) = distance (vertical_candidate g px py rangle)
    \<longrightarrow> cast_ray g px py rangle =
          wall_hit.extend (vertical_candidate g px py rangle) \<lparr>hitVertical = True\<rparr>)"
  unfolding cast_ray_select
  by (simp add: select_hit_def min_def wall_hit.extend_def)

lemma diag_rad: "m_deg_to_rad (- (45 * pi / PI)) = - (pi / 4)"
  by (simp add: m_deg_to_rad_def)

lemma diag_dir: "cos (- (pi / 4)) = sqrt 2 / 2" "- sin (- (pi / 4)) = sqrt 2 / 2"
  by (simp_all add: cos_45 sin_45)

lemma diag_h: "horizontal_candidate map_walls 160 160 (- (45 * pi / PI)) =
   \<lparr>hitX = 320, hitY = 320, wallType = 2, distance = sqrt 51200\<rparr>"
  unfolding horizontal_candidate_def diag_rad diag_dir
  by (simp add: cast_horizontal_def eval_nat_numeral map_walls_def Let_def)

lemma diag_v: "vertical_candidate map_walls 160 160 (- (45 * pi / PI)) =
   \<lparr>hitX = 320, hitY = 320, wallType = 2, distance = sqrt 51200\<rparr>"
  unfolding vertical_candidate_def diag_rad diag_dir
  by (simp add: cast_vertical_def eval_nat_numeral map_walls_def Let_def)

text \<open>
  Claim C1 states that a tie between the two candidates resolves to the horizontal hit.
  From the middle of cell (2, 2) the diagonal ray reaches the corner point (320, 320) in
  both tests, at the same distance, and the reported hit carries the vertical flag.
\<close>

theorem cast_ray_tie_counterexample:
  "distance (horizontal_candidate map_walls 160 160 (- (45 * pi / PI))) =
   distance (vertical_candidate map_walls 160 160 (- (45 * pi / PI))) \<and>
   hitVertical (cast_ray map_walls 160 160 (- (45 * pi / PI)))"
  unfolding cast_ray_select diag_h diag_v
  by (simp add: select_hit_def)

lemma north_rad: "m_deg_to_rad (90 * pi / PI) = pi / 2"
  by (simp add: m_deg_to_rad_def)

lemma north_sqrt: "sqrt (171636201 / 10000) = 13101 / 100"
  by (rule real_sqrt_unique) (simp_all add: power2_eq_square)

lemma north_h: "horizontal_candidate map_walls 200 195 (90 * pi / PI) =
   \<lparr>hitX = 200, hitY = 63.99, wallType = 3, distance = 131.01\<rparr>"
  unfolding horizontal_candidate_def north_rad
  by (simp add: cast_horizontal_def eval_nat_numeral map_walls_def Let_def north_sqrt)

lemma north_v: "vertical_candidate map_walls 200 195 (90 * pi / PI) = no_hit"
  unfolding vertical_candidate_def north_rad
  by (simp add: cast_vertical_def)

lemma east_h: "horizontal_candidate map_walls 200 195 0 = no_hit"
  by (simp add: horizontal_candidate_def m_deg_to_rad_def cast_horizontal_def)

lemma east_v: "vertical_candidate map_walls 200 195 0 =
   \<lparr>hitX = 448, hitY = 195, wallType = 1, distance = 248\<rparr>"
  by (simp add: vertical_candidate_def m_deg_to_rad_def cast_vertical_def eval_nat_numeral
      map_walls_def Let_def)

theorem cast_ray_nearer_hit_witness:
  "cast_ray map_walls 160 160 (- (45 * pi / PI)) =
     \<lparr>hitX = 320, hitY = 320, wallType = 2, distance = sqrt 51200, hitVertical = True\<rparr> \<and>
   cast_ray map_walls 200 195 (90 * pi / PI) =
     \<lparr>hitX = 200, hitY = 63.99, wallType = 3, distance = 131.01, hitVertical = False\<rparr> \<and>
   cast_ray map_walls 200 195 0 =
     \<lparr>hitX = 448, hitY = 195, wallType = 1, distance = 248, hitVertical = True\<rparr>"
  using cast_ray_nearer_hit [of map_walls 160 160 "- (45 * pi / PI)"]
    cast_ray_nearer_hit [of map_walls 200 195 "90 * pi / PI"]
    cast_ray_nearer_hit [of map_walls 200 195 0]
  unfolding diag_h diag_v north_h north_v east_h east_v
  by (simp add: wall_hit.extend_def no_hit_def)

text \<open>
  Claim C3. The value stored in the wall-distance buffer at ray index \<open>r\<close> is the raw
  distance of the ray's hit multiplied by the cosine of the ray angle minus the camera
  angle, an angle in degrees that the code converts to radians with its constant
  3.14159265359. For a ray whose angle equals the camera angle the stored value is the raw
  distance; ray 128 is such a ray.
\<close>

theorem wall_distance_fisheye:
  "length (r_raycast_wall_distances px py pangle) = 256 \<and>
   (\<forall>r < 256. r_raycast_wall_distances px py pangle ! r =
      distance (cast_ray map_walls px py (ray_angle pangle r))
        * cos ((ray_angle pangle r - pangle) * 3.14159265359 / 180)) \<and>
   (\<forall>r < 256. ray_angle pangle r = pangle \<longrightarrow>
      r_raycast_wall_distances px py pangle ! r = distance (cast_ray map_walls px py pangle)) \<and>
   ray_angle pangle 128 = pangle"
proof -
  have nth: "r_raycast_wall_distances px py pangle ! r =
      distance (cast_ray map_walls px py (ray_angle pangle r))
        * cos ((ray_angle pangle r - pangle) * 3.14159265359 / 180)" if "r < 256" for r
    using that raycast_distances_nth [of r 256 map_walls px py pangle "pangle - 30"]
    by (simp add: r_raycast_wall_distances_def ray_angle_def m_deg_to_rad_def)
  have same: "r_raycast_wall_distances px py pangle ! r = distance (cast_ray map_walls px py pangle)"
    if "r < 256" "ray_angle pangle r = pangle" for r
    using nth [OF that(1)] that(2) by simp
  show ?thesis
    using nth same by (simp add: raycast_distances_length r_raycast_wall_distances_def ray_angle_def)
qed

lemma east_ray_distance: "distance (cast_ray map_walls 200 195 0) = 248"
  unfolding cast_ray_select east_h east_v
  by (simp add: select_hit_def no_hit_def)

lemma cos_30_degrees:
  "0.866 < cos (30 * 3.14159265359 / 180 :: real)" "cos (30 * 3.14159265359 / 180 :: real) < 0.8661"
proof -
  define a :: real where "a = 30 * 3.14159265359 / 180"
  have "0.866 < 1 - a\<^sup>2 / 2 + a ^ 4 / 24 - a ^ 6 / 720" "1 - a\<^sup>2 / 2 + a ^ 4 / 24 + a ^ 6 / 720 < 0.8661"
    by (simp_all add: a_def power2_eq_square eval_nat_numeral)
  with cos_taylor [of a] have "0.866 < cos a" "cos a < 0.8661"
    by linarith+
  then show "0.866 < cos (30 * 3.14159265359 / 180 :: real)" "cos (30 * 3.14159265359 / 180 :: real) < 0.8661"
    by (simp_all add: a_def)
qed

theorem wall_distance_fisheye_witness:
  "r_raycast_wall_distances 200 195 0 ! 128 = 248 \<and>
   r_raycast_wall_distances 200 195 30 ! 0 = 248 * cos (30 * 3.14159265359 / 180) \<and>
   214.7 < r_raycast_wall_distances 200 195 30 ! 0 \<and>
   r_raycast_wall_distances 200 195 30 ! 0 < 214.8"
proof -
  have centre: "r_raycast_wall_distances 200 195 0 ! 128 = 248"
    using wall_distance_fisheye [of 200 195 0] east_ray_distance
    by (simp add: ray_angle_def)
  have "r_raycast_wall_distances 200 195 30 ! 0 =
      distance (cast_ray map_walls 200 195 (ray_angle 30 0)) * cos ((ray_angle 30 0 - 30) * 3.14159265359 / 180)"
    using wall_distance_fisheye [of 200 195 30] by simp
  also have "ray_angle 30 0 = 0"
    by (simp add: ray_angle_def)
  also have "cos ((0 - 30) * 3.14159265359 / 180 :: real) = cos (- (30 * 3.14159265359 / 180))"
    by simp
  also have "\<dots> = cos (30 * 3.14159265359 / 180)"
    by (rule cos_minus)
  finally have left: "r_raycast_wall_distances 200 195 30 ! 0 = 248 * cos (30 * 3.14159265359 / 180)"
    by (simp add: east_ray_distance)
  have "214.7 < 248 * c \<and> 248 * c < 214.8" if "0.866 < c" "c < 0.8661" for c :: real
    using that by simp
  from this [OF cos_30_degrees]
  have "214.7 < 248 * cos (30 * 3.14159265359 / 180 :: real)"
    "248 * cos (30 * 3.14159265359 / 180 :: real) < 214.8"
    by simp_all
  with centre left show ?thesis
    by simp
qed

lemma in_grid_iff: "in_grid X Y \<longleftrightarrow> 0 \<le> X \<and> X < 512 \<and> 0 \<le> Y \<and> Y < 512"
  by (auto simp: in_grid_def floor_less_iff le_floor_iff)


lemma cast_loop_Suc:
  "cast_loop g px py dX dY (Suc n) tx ty =
     (if \<not> in_grid tx ty then (1, no_hit)
      else if 0 < cell_code g tx ty then
        (1, \<lparr>hitX = tx, hitY = ty, wallType = cell_code g tx ty,
             distance = sqrt ((tx - px) * (tx - px) + (ty - py) * (ty - py))\<rparr>)
      else (Suc (fst (cast_loop g px py dX dY n (tx + dX) (ty + dY))),
            snd (cast_loop g px py dX dY n (tx + dX) (ty + dY))))"
  by (auto simp: in_grid_def cell_code_def Let_def split: prod.splits)

lemma cast_loop_iterations: "fst (cast_loop g px py dX dY n tx ty) \<le> n"
proof (induction n arbitrary: tx ty)
  case 0
  then show ?case by simp
next
  case (Suc n)
  show ?case
    using Suc.IH [of "tx + dX" "ty + dY"]
    by (simp add: cast_loop_Suc del: cast_loop.simps)
qed

lemma cast_loop_hit_or_miss:
  "snd (cast_loop g px py dX dY n tx ty) = no_hit \<or>
   (0 < wallType (snd (cast_loop g px py dX dY n tx ty)) \<and>
    in_grid (hitX (snd (cast_loop g px py dX dY n tx ty))) (hitY (snd (cast_loop g px py dX dY n tx ty))) \<and>
    distance (snd (cast_loop g px py dX dY n tx ty)) =
      sqrt ((hitX (snd (cast_loop g px py dX dY n tx ty)) - px) * (hitX (snd (cast_loop g px py dX dY n tx ty)) - px)
          + (hitY (snd (cast_loop g px py dX dY n tx ty)) - py) * (hitY (snd (cast_loop g px py dX dY n tx ty)) - py)))"
proof (induction n arbitrary: tx ty)
  case 0
  then show ?case by simp
next
  case (Suc n)
  show ?case
    using Suc.IH [of "tx + dX" "ty + dY"]
    by (simp add: cast_loop_Suc del: cast_loop.simps)
qed

lemma cast_loop_miss:
  "snd (cast_loop g px py dX dY n tx ty) = no_hit \<Longrightarrow>
     (\<exists>j<n. \<not> in_grid (tx + real j * dX) (ty + real j * dY) \<and>
        (\<forall>i<j. in_grid (tx + real i * dX) (ty + real i * dY)
                \<and> cell_code g (tx + real i * dX) (ty + real i * dY) \<le> 0)) \<or>
     (\<forall>i<n. in_grid (tx + real i * dX) (ty + real i * dY)
             \<and> cell_code g (tx + real i * dX) (ty + real i * dY) \<le> 0)"
proof (induction n arbitrary: tx ty)
  case 0
  then show ?case by simp
next
  case (Suc n)
  let ?S = "\<lambda>tx ty i. in_grid (tx + real i * dX) (ty + real i * dY)
               \<and> cell_code g (tx + real i * dX) (ty + real i * dY) \<le> 0"
  have shift: "tx + dX + real i * dX = tx + real (Suc i) * dX"
    "ty + dY + real i * dY = ty + real (Suc i) * dY" for i
    by (simp_all add: algebra_simps)
  show ?case
  proof (cases "in_grid tx ty")
    case False
    then have "\<not> in_grid (tx + real 0 * dX) (ty + real 0 * dY) \<and> (\<forall>i<0. ?S tx ty i)"
      by simp
    then show ?thesis
      by blast
  next
    case True
    show ?thesis
    proof (cases "0 < cell_code g tx ty")
      case True
      with \<open>in_grid tx ty\<close> Suc.prems show ?thesis
        by (simp add: cast_loop_Suc no_hit_def del: cast_loop.simps)
    next
      case False
      with \<open>in_grid tx ty\<close> have here: "?S tx ty 0"
        by simp
      from False \<open>in_grid tx ty\<close> Suc.prems
      have "snd (cast_loop g px py dX dY n (tx + dX) (ty + dY)) = no_hit"
        by (simp add: cast_loop_Suc del: cast_loop.simps)
      from Suc.IH [OF this] show ?thesis
      proof
        assume "\<exists>j<n. \<not> in_grid (tx + dX + real j * dX) (ty + dY + real j * dY) \<and>
                  (\<forall>i<j. ?S (tx + dX) (ty + dY) i)"
        then obtain j where j: "j < n"
          "\<not> in_grid (tx + real (Suc j) * dX) (ty + real (Suc j) * dY)"
          "\<forall>i<j. ?S tx ty (Suc i)"
          unfolding shift by blast
        have "\<forall>i<Suc j. ?S tx ty i"
        proof (intro allI impI)
          fix i assume "i < Suc j"
          then show "?S tx ty i"
            using here j(3) by (cases i) auto
        qed
        with j(1,2) have "Suc j < Suc n \<and> \<not> in_grid (tx + real (Suc j) * dX) (ty + real (Suc j) * dY)
            \<and> (\<forall>i<Suc j. ?S tx ty i)"
          by simp
        then show ?thesis
          by blast
      next
        assume "\<forall>i<n. ?S (tx + dX) (ty + dY) i"
        then have all: "\<forall>i<n. ?S tx ty (Suc i)"
          unfolding shift .
        have "\<forall>i<Suc n. ?S tx ty i"
        proof (intro allI impI)
          fix i assume "i < Suc n"
          then show "?S tx ty i"
            using here all by (cases i) auto
        qed
        then show ?thesis
          by blast
      qed
    qed
  qed
qed

lemma walled_grid_border:
  assumes "walled_grid g" "0 \<le> cx" "cx < 8" "0 \<le> cy" "cy < 8"
    and "cx = 0 \<or> cx = 7 \<or> cy = 0 \<or> cy = 7"
  shows "0 < g ! nat (cy * 8 + cx)"
proof -
  obtain a b where ab: "cx = int a" "cy = int b"
    using assms(2,4) by (metis nat_0_le)
  with assms have a: "a < 8" and b: "b < 8"
    by simp_all
  have idx: "nat (cy * 8 + cx) = b * 8 + a"
    unfolding ab by (simp add: nat_add_distrib nat_mult_distrib)
  have lt: "b * 8 + a < 64"
    using a b by simp
  have "(b * 8 + a) mod 8 = a" "(b * 8 + a) div 8 = b"
    using a by simp_all
  moreover have "a = 0 \<or> a = 7 \<or> b = 0 \<or> b = 7"
    using assms(6) ab by simp
  ultimately have border: "(b * 8 + a) mod 8 = 0 \<or> (b * 8 + a) mod 8 = 7
      \<or> (b * 8 + a) div 8 = 0 \<or> (b * 8 + a) div 8 = 7"
    by simp
  have "g ! (b * 8 + a) \<noteq> 0"
    using assms(1) lt border unfolding walled_grid_def list_all_length
    by (metis (no_types, lifting) add_0 diff_zero length_upt nth_upt)
  moreover have "0 \<le> g ! (b * 8 + a)"
    using assms(1) lt unfolding walled_grid_def list_all_length by simp
  ultimately show ?thesis
    unfolding idx by simp
qed

lemma border_cell_wall:
  assumes "walled_grid g" "in_grid X Y"
    and "\<lfloor>X / 64\<rfloor> = 0 \<or> \<lfloor>X / 64\<rfloor> = 7 \<or> \<lfloor>Y / 64\<rfloor> = 0 \<or> \<lfloor>Y / 64\<rfloor> = 7"
  shows "0 < cell_code g X Y"
  using assms walled_grid_border [of g "\<lfloor>X / 64\<rfloor>" "\<lfloor>Y / 64\<rfloor>"]
  by (simp add: in_grid_def cell_code_def)

lemma camera_interior:
  assumes "walled_grid g" "in_grid px py" "cell_code g px py = 0"
  shows "1 \<le> \<lfloor>px / 64\<rfloor> \<and> \<lfloor>px / 64\<rfloor> \<le> 6 \<and> 1 \<le> \<lfloor>py / 64\<rfloor> \<and> \<lfloor>py / 64\<rfloor> \<le> 6"
proof -
  have "\<not> (\<lfloor>px / 64\<rfloor> = 0 \<or> \<lfloor>px / 64\<rfloor> = 7 \<or> \<lfloor>py / 64\<rfloor> = 0 \<or> \<lfloor>py / 64\<rfloor> = 7)"
    using border_cell_wall [OF assms(1,2)] assms(3) by auto
  then show ?thesis
    using assms(2) unfolding in_grid_def by linarith
qed

lemma scan_miss:
  assumes miss: "snd (cast_loop g px py dX dY n tx ty) = no_hit"
    and jb: "jb < n"
    and wall: "in_grid (tx + real jb * dX) (ty + real jb * dY)
               \<Longrightarrow> 0 < cell_code g (tx + real jb * dX) (ty + real jb * dY)"
  shows "\<exists>j\<le>jb. \<not> in_grid (tx + real j * dX) (ty + real j * dY)"
proof -
  let ?S = "\<lambda>i. in_grid (tx + real i * dX) (ty + real i * dY)
               \<and> cell_code g (tx + real i * dX) (ty + real i * dY) \<le> 0"
  have notS: "\<not> ?S jb"
    using wall by fastforce
  from cast_loop_miss [OF miss] show ?thesis
  proof
    assume "\<exists>j<n. \<not> in_grid (tx + real j * dX) (ty + real j * dY) \<and> (\<forall>i<j. ?S i)"
    then obtain j where j: "\<not> in_grid (tx + real j * dX) (ty + real j * dY)" "\<forall>i<j. ?S i"
      by blast
    from j(2) notS have "\<not> jb < j"
      by blast
    then have "j \<le> jb"
      by simp
    with j(1) show ?thesis
      by blast
  next
    assume "\<forall>i<n. ?S i"
    with jb notS show ?thesis
      by blast
  qed
qed

lemma floor_cell_bounds:
  "64 * real_of_int \<lfloor>p / 64\<rfloor> \<le> p" "p < 64 * real_of_int \<lfloor>p / 64\<rfloor> + 64"
proof -
  have "real_of_int \<lfloor>p / 64\<rfloor> \<le> p / 64" "p / 64 < real_of_int \<lfloor>p / 64\<rfloor> + 1"
    by linarith+
  then show "64 * real_of_int \<lfloor>p / 64\<rfloor> \<le> p" "p < 64 * real_of_int \<lfloor>p / 64\<rfloor> + 64"
    by linarith+
qed

lemma horizontal_miss:
  assumes g: "walled_grid g" and cam: "in_grid px py" "cell_code g px py = 0"
    and dy: "dy \<noteq> 0" and miss: "snd (cast_horizontal g px py dx dy) = no_hit"
  shows "\<exists>t>0. 0 \<le> py + t * dy \<and> py + t * dy < 512 \<and> \<not> (0 \<le> px + t * dx \<and> px + t * dx < 512)"
proof -
  define ky where "ky = \<lfloor>py / 64\<rfloor>"
  define r where "r = dx / dy"
  have ky: "1 \<le> ky" "ky \<le> 6"
    using camera_interior [OF g cam] by (simp_all add: ky_def)
  have py: "64 * real_of_int ky \<le> py" "py < 64 * real_of_int ky + 64"
    unfolding ky_def by (rule floor_cell_bounds)+
  have on_ray: "\<exists>t>0. 0 \<le> py + t * dy \<and> py + t * dy < 512 \<and> \<not> (0 \<le> px + t * dx \<and> px + t * dx < 512)"
    if out: "\<not> in_grid (px + (Y - py) * r) Y" and Y: "0 \<le> Y" "Y < 512" and side: "0 < (Y - py) / dy" for Y
  proof -
    have "py + (Y - py) / dy * dy = Y" "px + (Y - py) / dy * dx = px + (Y - py) * r"
      using dy by (simp_all add: r_def)
    with out Y side show ?thesis
      unfolding in_grid_iff by (intro exI [of _ "(Y - py) / dy"]) auto
  qed
  show ?thesis
  proof (cases "dy < 0")
    case True
    define ty where "ty = real_of_int ky * 64 - 0.01"
    define tx where "tx = px + (ty - py) * r"
    define jb where "jb = nat (ky - 1)"
    have loop: "cast_horizontal g px py dx dy = cast_loop g px py (- 64 * r) (- 64) 8 tx ty"
      using True dy by (simp add: cast_horizontal_def Let_def tx_def ty_def r_def ky_def)
    have jb: "real jb = real_of_int ky - 1" "jb < 8"
      using ky by (simp_all add: jb_def)
    have row: "\<lfloor>(ty + real jb * (- 64)) / 64\<rfloor> = 0"
      unfolding jb ty_def by (simp add: floor_eq_iff)
    have "\<exists>j\<le>jb. \<not> in_grid (tx + real j * (- 64 * r)) (ty + real j * (- 64))"
      using miss jb(2) border_cell_wall [OF g] row unfolding loop
      by (intro scan_miss) auto
    then obtain j where j: "j \<le> jb" "\<not> in_grid (tx + real j * (- 64 * r)) (ty + real j * (- 64))"
      by blast
    define Y where "Y = ty + real j * (- 64)"
    have "real j \<le> real_of_int ky - 1"
      using j(1) jb(1) by linarith
    then have Y: "0 \<le> Y" "Y < 512" "Y < py"
      using ky py by (simp_all add: Y_def ty_def)
    have "tx + real j * (- 64 * r) = px + (Y - py) * r"
      by (simp add: tx_def Y_def algebra_simps)
    with j(2) have "\<not> in_grid (px + (Y - py) * r) Y"
      by (simp add: Y_def)
    moreover have "0 < (Y - py) / dy"
      using Y(3) True by (simp add: divide_neg_neg)
    ultimately show ?thesis
      using on_ray Y by blast
  next
    case False
    with dy have pos: "0 < dy"
      by simp
    define ty where "ty = real_of_int ky * 64 + 64"
    define tx where "tx = px + (ty - py) * r"
    define jb where "jb = nat (6 - ky)"
    have loop: "cast_horizontal g px py dx dy = cast_loop g px py (64 * r) 64 8 tx ty"
      using False dy by (simp add: cast_horizontal_def Let_def tx_def ty_def r_def ky_def)
    have jb: "real jb = 6 - real_of_int ky" "jb < 8"
      using ky by (simp_all add: jb_def)
    have row: "\<lfloor>(ty + real jb * 64) / 64\<rfloor> = 7"
      unfolding jb ty_def by (simp add: floor_eq_iff)
    have "\<exists>j\<le>jb. \<not> in_grid (tx + real j * (64 * r)) (ty + real j * 64)"
      using miss jb(2) border_cell_wall [OF g] row unfolding loop
      by (intro scan_miss) auto
    then obtain j where j: "j \<le> jb" "\<not> in_grid (tx + real j * (64 * r)) (ty + real j * 64)"
      by blast
    define Y where "Y = ty + real j * 64"
    have "real j \<le> 6 - real_of_int ky"
      using j(1) jb(1) by linarith
    then have Y: "0 \<le> Y" "Y < 512" "py < Y"
      using ky py by (simp_all add: Y_def ty_def)
    have "tx + real j * (64 * r) = px + (Y - py) * r"
      by (simp add: tx_def Y_def algebra_simps)
    with j(2) have "\<not> in_grid (px + (Y - py) * r) Y"
      by (simp add: Y_def)
    moreover have "0 < (Y - py) / dy"
      using Y(3) pos by simp
    ultimately show ?thesis
      using on_ray Y by blast
  qed
qed

lemma vertical_miss:
  assumes g: "walled_grid g" and cam: "in_grid px py" "cell_code g px py = 0"
    and dx: "dx \<noteq> 0" and miss: "snd (cast_vertical g px py dx dy) = no_hit"
  shows "\<exists>s>0. 0 \<le> px + s * dx \<and> px + s * dx < 512 \<and> \<not> (0 \<le> py + s * dy \<and> py + s * dy < 512)"
proof -
  define kx where "kx = \<lfloor>px / 64\<rfloor>"
  define r where "r = dy / dx"
  have kx: "1 \<le> kx" "kx \<le> 6"
    using camera_interior [OF g cam] by (simp_all add: kx_def)
  have px: "64 * real_of_int kx \<le> px" "px < 64 * real_of_int kx + 64"
    unfolding kx_def by (rule floor_cell_bounds)+
  have on_ray: "\<exists>s>0. 0 \<le> px + s * dx \<and> px + s * dx < 512 \<and> \<not> (0 \<le> py + s * dy \<and> py + s * dy < 512)"
    if out: "\<not> in_grid X (py + (X - px) * r)" and X: "0 \<le> X" "X < 512" and side: "0 < (X - px) / dx" for X
  proof -
    have "px + (X - px) / dx * dx = X" "py + (X - px) / dx * dy = py + (X - px) * r"
      using dx by (simp_all add: r_def)
    with out X side show ?thesis
      unfolding in_grid_iff by (intro exI [of _ "(X - px) / dx"]) auto
  qed
  show ?thesis
  proof (cases "dx < 0")
    case True
    define tx where "tx = real_of_int kx * 64 - 0.01"
    define ty where "ty = py + (tx - px) * r"
    define jb where "jb = nat (kx - 1)"
    have loop: "cast_vertical g px py dx dy = cast_loop g px py (- 64) (- 64 * r) 8 tx ty"
      using True dx by (simp add: cast_vertical_def Let_def tx_def ty_def r_def kx_def)
    have jb: "real jb = real_of_int kx - 1" "jb < 8"
      using kx by (simp_all add: jb_def)
    have col: "\<lfloor>(tx + real jb * (- 64)) / 64\<rfloor> = 0"
      unfolding jb tx_def by (simp add: floor_eq_iff)
    have "\<exists>j\<le>jb. \<not> in_grid (tx + real j * (- 64)) (ty + real j * (- 64 * r))"
      using miss jb(2) border_cell_wall [OF g] col unfolding loop
      by (intro scan_miss) auto
    then obtain j where j: "j \<le> jb" "\<not> in_grid (tx + real j * (- 64)) (ty + real j * (- 64 * r))"
      by blast
    define X where "X = tx + real j * (- 64)"
    have "real j \<le> real_of_int kx - 1"
      using j(1) jb(1) by linarith
    then have X: "0 \<le> X" "X < 512" "X < px"
      using kx px by (simp_all add: X_def tx_def)
    have "ty + real j * (- 64 * r) = py + (X - px) * r"
      by (simp add: ty_def X_def algebra_simps)
    with j(2) have "\<not> in_grid X (py + (X - px) * r)"
      by (simp add: X_def)
    moreover have "0 < (X - px) / dx"
      using X(3) True by (simp add: divide_neg_neg)
    ultimately show ?thesis
      using on_ray X by blast
  next
    case False
    with dx have pos: "0 < dx"
      by simp
    define tx where "tx = real_of_int kx * 64 + 64"
    define ty where "ty = py + (tx - px) * r"
    define jb where "jb = nat (6 - kx)"
    have loop: "cast_vertical g px py dx dy = cast_loop g px py 64 (64 * r) 8 tx ty"
      using False dx by (simp add: cast_vertical_def Let_def tx_def ty_def r_def kx_def)
    have jb: "real jb = 6 - real_of_int kx" "jb < 8"
      using kx by (simp_all add: jb_def)
    have col: "\<lfloor>(tx + real jb * 64) / 64\<rfloor> = 7"
      unfolding jb tx_def by (simp add: floor_eq_iff)
    have "\<exists>j\<le>jb. \<not> in_grid (tx + real j * 64) (ty + real j * (64 * r))"
      using miss jb(2) border_cell_wall [OF g] col unfolding loop
      by (intro scan_miss) auto
    then obtain j where j: "j \<le> jb" "\<not> in_grid (tx + real j * 64) (ty + real j * (64 * r))"
      by blast
    define X where "X = tx + real j * 64"
    have "real j \<le> 6 - real_of_int kx"
      using j(1) jb(1) by linarith
    then have X: "0 \<le> X" "X < 512" "px < X"
      using kx px by (simp_all add: X_def tx_def)
    have "ty + real j * (64 * r) = py + (X - px) * r"
      by (simp add: ty_def X_def algebra_simps)
    with j(2) have "\<not> in_grid X (py + (X - px) * r)"
      by (simp add: X_def)
    moreover have "0 < (X - px) / dx"
      using X(3) pos by simp
    ultimately show ?thesis
      using on_ray X by blast
  qed
qed

lemma segment_inside:
  fixes p d s t :: real
  assumes "0 < t" "t \<le> s" "0 \<le> p" "p < 512" "0 \<le> p + s * d" "p + s * d < 512"
  shows "0 \<le> p + t * d \<and> p + t * d < 512"
proof (cases "0 \<le> d")
  case True
  then have "0 \<le> t * d" "t * d \<le> s * d"
    using assms(1,2) by (simp_all add: mult_right_mono)
  with assms show ?thesis
    by linarith
next
  case False
  then have "t * d \<le> 0" "s * d \<le> t * d"
    using assms(1,2) by (simp_all add: mult_le_0_iff mult_right_mono_neg)
  with assms show ?thesis
    by linarith
qed

lemma not_both_miss:
  assumes g: "walled_grid g" and cam: "in_grid px py" "cell_code g px py = 0"
    and dir: "dx \<noteq> 0 \<or> dy \<noteq> 0"
    and mh: "snd (cast_horizontal g px py dx dy) = no_hit"
    and mv: "snd (cast_vertical g px py dx dy) = no_hit"
  shows False
proof -
  have p: "0 \<le> px" "px < 512" "0 \<le> py" "py < 512"
    using cam(1) by (simp_all add: in_grid_iff)
  show False
  proof (cases "dy = 0")
    case True
    with dir have "dx \<noteq> 0"
      by simp
    from vertical_miss [OF g cam this mv] True p show False
      by auto
  next
    case dy: False
    from horizontal_miss [OF g cam dy mh] obtain t where t: "0 < t"
      "0 \<le> py + t * dy" "py + t * dy < 512" "\<not> (0 \<le> px + t * dx \<and> px + t * dx < 512)"
      by blast
    show False
    proof (cases "dx = 0")
      case True
      with t(4) p show False
        by simp
    next
      case False
      from vertical_miss [OF g cam False mv] obtain s where s: "0 < s"
        "0 \<le> px + s * dx" "px + s * dx < 512" "\<not> (0 \<le> py + s * dy \<and> py + s * dy < 512)"
        by blast
      show False
      proof (cases "t \<le> s")
        case True
        from segment_inside [OF t(1) True p(1,2) s(2,3)] t(4) show False
          by simp
      next
        case False
        then have "s \<le> t"
          by simp
        from segment_inside [OF s(1) this p(3,4) t(2,3)] s(4) show False
          by simp
      qed
    qed
  qed
qed

lemma cast_loop_hit_cell:
  "snd (cast_loop g px py dX dY n tx ty) = no_hit \<or>
   wallType (snd (cast_loop g px py dX dY n tx ty)) =
     cell_code g (hitX (snd (cast_loop g px py dX dY n tx ty))) (hitY (snd (cast_loop g px py dX dY n tx ty)))"
proof (induction n arbitrary: tx ty)
  case 0
  then show ?case by simp
next
  case (Suc n)
  show ?case
    using Suc.IH [of "tx + dX" "ty + dY"]
    by (simp add: cast_loop_Suc del: cast_loop.simps)
qed

lemma cast_loop_ok:
  "snd (cast_loop g px py dX dY n tx ty) = no_hit \<or>
   wall_hit_ok g px py (snd (cast_loop g px py dX dY n tx ty))"
  using cast_loop_hit_or_miss [of g px py dX dY n tx ty] cast_loop_hit_cell [of g px py dX dY n tx ty]
  unfolding wall_hit_ok_def by blast

lemma cast_horizontal_ok:
  "snd (cast_horizontal g px py dx dy) = no_hit \<or> wall_hit_ok g px py (snd (cast_horizontal g px py dx dy))"
  by (simp add: cast_horizontal_def Let_def cast_loop_ok)

lemma cast_vertical_ok:
  "snd (cast_vertical g px py dx dy) = no_hit \<or> wall_hit_ok g px py (snd (cast_vertical g px py dx dy))"
  by (simp add: cast_vertical_def Let_def cast_loop_ok)

lemma square_bound:
  fixes a :: real
  assumes "\<bar>a\<bar> < 512"
  shows "a * a < 262144"
proof -
  have "\<bar>a\<bar> * \<bar>a\<bar> < 512 * 512"
    using assms by (intro mult_strict_mono') simp_all
  then show ?thesis
    by simp
qed

lemma hit_distance_bound:
  assumes "in_grid px py" "wall_hit_ok g px py h"
  shows "distance h < 1000000"
proof -
  have "\<bar>hitX h - px\<bar> < 512" "\<bar>hitY h - py\<bar> < 512"
    using assms unfolding wall_hit_ok_def in_grid_iff by linarith+
  then have "(hitX h - px) * (hitX h - px) + (hitY h - py) * (hitY h - py) < 1000000\<^sup>2"
    using square_bound [of "hitX h - px"] square_bound [of "hitY h - py"] by simp
  then have "sqrt ((hitX h - px) * (hitX h - px) + (hitY h - py) * (hitY h - py)) < 1000000"
    by (intro real_less_lsqrt) simp_all
  then show ?thesis
    using assms(2) by (simp add: wall_hit_ok_def)
qed

lemma select_hit_ok:
  assumes "in_grid px py"
    and h: "h = no_hit \<or> wall_hit_ok g px py h"
    and v: "v = no_hit \<or> wall_hit_ok g px py v"
    and one: "\<not> (h = no_hit \<and> v = no_hit)"
  shows "distance (select_hit h v) < 1000000 \<and> 0 < wallType (select_hit h v) \<and>
         in_grid (hitX (select_hit h v)) (hitY (select_hit h v)) \<and>
         wallType (select_hit h v) = cell_code g (hitX (select_hit h v)) (hitY (select_hit h v))"
proof (cases "distance h < distance v")
  case True
  have "distance v \<le> 1000000"
    using v hit_distance_bound [OF assms(1), of g v] by (auto simp: no_hit_def)
  with True have "h \<noteq> no_hit"
    by (auto simp: no_hit_def)
  with h have ok: "wall_hit_ok g px py h"
    by simp
  from True hit_distance_bound [OF assms(1) ok] ok show ?thesis
    by (simp add: select_hit_def wall_hit_ok_def)
next
  case False
  have "v \<noteq> no_hit"
  proof
    assume vm: "v = no_hit"
    with one h have "wall_hit_ok g px py h"
      by simp
    from hit_distance_bound [OF assms(1) this] False vm show False
      by (simp add: no_hit_def)
  qed
  with v have ok: "wall_hit_ok g px py v"
    by simp
  from False hit_distance_bound [OF assms(1) ok] ok show ?thesis
    by (simp add: select_hit_def wall_hit_ok_def)
qed

lemma ray_direction_nonzero: "cos (a :: real) \<noteq> 0 \<or> - sin a \<noteq> 0"
  using sin_zero_abs_cos_one [of a] by fastforce

text \<open>
  Claim C9. Whatever the direction components are (also zero), the horizontal-crossing loop
  runs its body at most \<open>MAPY\<close> times and the vertical-crossing loop at most \<open>MAPX\<close> times.
  On a grid whose border cells are all nonzero, for every camera position in an empty cell
  and every ray angle, the ray reports a hit: its distance is below the sentinel 1000000,
  and the hit point lies in a grid cell with a positive code, which is the reported
  material.
\<close>

theorem ray_traversal_bounded_and_hits:
  "fst (cast_horizontal g px py dx dy) \<le> nat MAPY \<and>
   fst (cast_vertical g px py dx dy) \<le> nat MAPX \<and>
   (walled_grid g \<and> in_grid px py \<and> cell_code g px py = 0 \<longrightarrow>
      distance (cast_ray g px py rangle) < 1000000 \<and>
      0 < wallType (cast_ray g px py rangle) \<and>
      in_grid (hitX (cast_ray g px py rangle)) (hitY (cast_ray g px py rangle)) \<and>
      wallType (cast_ray g px py rangle) =
        cell_code g (hitX (cast_ray g px py rangle)) (hitY (cast_ray g px py rangle)))"
proof (intro conjI impI)
  show "fst (cast_horizontal g px py dx dy) \<le> nat MAPY"
    by (simp add: cast_horizontal_def Let_def cast_loop_iterations)
  show "fst (cast_vertical g px py dx dy) \<le> nat MAPX"
    by (simp add: cast_vertical_def Let_def cast_loop_iterations)
next
  assume hyp: "walled_grid g \<and> in_grid px py \<and> cell_code g px py = 0"
  define cx where "cx = cos (m_deg_to_rad rangle)"
  define cy where "cy = - sin (m_deg_to_rad rangle)"
  define h where "h = snd (cast_horizontal g px py cx cy)"
  define v where "v = snd (cast_vertical g px py cx cy)"
  have dir: "cx \<noteq> 0 \<or> cy \<noteq> 0"
    unfolding cx_def cy_def by (rule ray_direction_nonzero)
  have one: "\<not> (h = no_hit \<and> v = no_hit)"
    using not_both_miss [of g px py cx cy] hyp dir unfolding h_def v_def by blast
  have ray: "cast_ray g px py rangle = select_hit h v"
    by (simp add: cast_ray_def Let_def h_def v_def cx_def cy_def)
  have "distance (select_hit h v) < 1000000 \<and> 0 < wallType (select_hit h v) \<and>
         in_grid (hitX (select_hit h v)) (hitY (select_hit h v)) \<and>
         wallType (select_hit h v) = cell_code g (hitX (select_hit h v)) (hitY (select_hit h v))"
    using hyp one cast_horizontal_ok [of g px py cx cy] cast_vertical_ok [of g px py cx cy]
    unfolding h_def v_def by (intro select_hit_ok) simp_all
  then show "distance (cast_ray g px py rangle) < 1000000"
    "0 < wallType (cast_ray g px py rangle)"
    "in_grid (hitX (cast_ray g px py rangle)) (hitY (cast_ray g px py rangle))"
    "wallType (cast_ray g px py rangle) =
        cell_code g (hitX (cast_ray g px py rangle)) (hitY (cast_ray g px py rangle))"
    unfolding ray by simp_all
qed

lemma walled_grid_map_walls: "walled_grid map_walls"
proof -
  have "length map_walls = 64"
    by code_simp
  moreover have "list_all (\<lambda>c. 0 \<le> c) map_walls"
    by code_simp
  moreover have "list_all (\<lambda>i. i mod 8 = 0 \<or> i mod 8 = 7 \<or> i div 8 = 0 \<or> i div 8 = 7
                   \<longrightarrow> map_walls ! i \<noteq> 0) [0..<64]"
    by code_simp
  ultimately show ?thesis
    unfolding walled_grid_def by simp
qed

lemma east_ray: "cast_ray map_walls 200 195 0 =
   \<lparr>hitX = 448, hitY = 195, wallType = 1, distance = 248, hitVertical = True\<rparr>"
  by (simp add: cast_ray_def m_deg_to_rad_def cast_horizontal_def cast_vertical_def
      select_hit_def no_hit_def eval_nat_numeral map_walls_def Let_def)

theorem ray_traversal_bounded_and_hits_witness:
  "walled_grid map_walls \<and> in_grid 200 195 \<and> cell_code map_walls 200 195 = 0 \<and>
   fst (cast_horizontal map_walls 200 195 1 0) \<le> 8 \<and>
   fst (cast_vertical map_walls 200 195 1 0) \<le> 8 \<and>
   distance (cast_ray map_walls 200 195 0) = 248 \<and>
   wallType (cast_ray map_walls 200 195 0) = 1"
proof -
  have "in_grid 200 195 \<and> cell_code map_walls 200 195 = 0"
    by (simp add: in_grid_def cell_code_def map_walls_def)
  with walled_grid_map_walls
  have hyp: "walled_grid map_walls \<and> in_grid 200 195 \<and> cell_code map_walls 200 195 = 0"
    by simp
  from ray_traversal_bounded_and_hits [of map_walls 200 195 1 0 0] hyp show ?thesis
    by (simp add: east_ray)
qed

section \<open>Sprite sorting properties\<close>

lemma sort_inner_mset:
  "i < j \<Longrightarrow> mset (sort_inner i j sprites) = mset sprites"
proof (induction i j sprites rule: sort_inner.induct)
  case (1 i j sprites)
  show ?case
  proof (cases "j < length sprites")
    case True
    with "1.prems" have "mset (sprites[i := sprites ! j, j := sprites ! i]) = mset sprites"
      by (simp add: mset_swap)
    with True "1.IH" "1.prems" show ?thesis
      by (subst sort_inner.simps) simp
  next
    case False
    then show ?thesis
      by (subst sort_inner.simps) simp
  qed
qed

lemma sort_inner_prefix:
  "i < j \<Longrightarrow> k < i \<Longrightarrow> sort_inner i j sprites ! k = sprites ! k"
proof (induction i j sprites rule: sort_inner.induct)
  case (1 i j sprites)
  show ?case
  proof (cases "j < length sprites")
    case True
    with "1.IH" "1.prems" show ?thesis
      by (subst sort_inner.simps) simp
  next
    case False
    then show ?thesis
      by (subst sort_inner.simps) simp
  qed
qed

lemma sort_inner_front:
  "i < j \<Longrightarrow>
   (\<forall>m. i < m \<and> m < j \<and> m < length sprites \<longrightarrow> sprite_dist (sprites ! m) \<le> sprite_dist (sprites ! i)) \<Longrightarrow>
   (\<forall>m. i < m \<and> m < length sprites \<longrightarrow>
        sprite_dist (sort_inner i j sprites ! m) \<le> sprite_dist (sort_inner i j sprites ! i))"
proof (induction i j sprites rule: sort_inner.induct)
  case (1 i j sprites)
  show ?case
  proof (cases "j < length sprites")
    case False
    with "1.prems" show ?thesis
      by (subst (1 2) sort_inner.simps) simp
  next
    case True
    define next_sprites where "next_sprites =
      (if sprite_dist (sprites ! i) < sprite_dist (sprites ! j)
       then sprites[i := sprites ! j, j := sprites ! i] else sprites)"
    have len: "length next_sprites = length sprites"
      by (simp add: next_sprites_def)
    have step: "sort_inner i j sprites = sort_inner i (j + 1) next_sprites"
      using True by (subst sort_inner.simps) (simp add: next_sprites_def)
    have inv: "\<forall>m. i < m \<and> m < j + 1 \<and> m < length next_sprites \<longrightarrow>
        sprite_dist (next_sprites ! m) \<le> sprite_dist (next_sprites ! i)"
    proof (intro allI impI)
      fix m assume m: "i < m \<and> m < j + 1 \<and> m < length next_sprites"
      show "sprite_dist (next_sprites ! m) \<le> sprite_dist (next_sprites ! i)"
      proof (cases "m = j")
        case True
        with \<open>j < length sprites\<close> "1.prems"(1) show ?thesis
          by (simp add: next_sprites_def)
      next
        case False
        with m have mj: "m < j"
          by simp
        with m len "1.prems" have old: "sprite_dist (sprites ! m) \<le> sprite_dist (sprites ! i)"
          by simp
        from mj m True "1.prems"(1) old show ?thesis
          by (simp add: next_sprites_def)
      qed
    qed
    have "\<forall>m. i < m \<and> m < length next_sprites \<longrightarrow>
        sprite_dist (sort_inner i (j + 1) next_sprites ! m)
          \<le> sprite_dist (sort_inner i (j + 1) next_sprites ! i)"
      using "1.IH" [OF True] "1.prems"(1) inv unfolding next_sprites_def by simp
    then show ?thesis
      unfolding step len .
  qed
qed

lemma sort_inner_take:
  assumes "i < j"
  shows "take i (sort_inner i j sprites) = take i sprites"
  by (simp add: list_eq_iff_nth_eq sort_inner_length sort_inner_prefix [OF assms])

lemma sort_inner_drop_mset:
  assumes "i < j"
  shows "mset (drop i (sort_inner i j sprites)) = mset (drop i sprites)"
proof -
  have "mset (take i (sort_inner i j sprites)) + mset (drop i (sort_inner i j sprites))
      = mset (take i sprites) + mset (drop i sprites)"
    using sort_inner_mset [OF assms, of sprites]
    by (metis append_take_drop_id mset_append)
  then show ?thesis
    by (simp add: sort_inner_take [OF assms])
qed

lemma front_sorted_step:
  assumes inv: "front_sorted i sprites"
  shows "front_sorted (i + 1) (sort_inner i (i + 1) sprites)"
  unfolding front_sorted_def
proof (intro allI impI)
  let ?ys = "sort_inner i (i + 1) sprites"
  fix a b assume ab: "a < i + 1 \<and> a < b \<and> b < length ?ys"
  then have b: "b < length sprites"
    by (simp add: sort_inner_length)
  show "sprite_dist (?ys ! b) \<le> sprite_dist (?ys ! a)"
  proof (cases "a = i")
    case True
    have "\<forall>m. i < m \<and> m < length sprites \<longrightarrow> sprite_dist (?ys ! m) \<le> sprite_dist (?ys ! i)"
      by (rule sort_inner_front) simp_all
    with ab b True show ?thesis
      by simp
  next
    case False
    with ab have a: "a < i"
      by simp
    then have ya: "?ys ! a = sprites ! a"
      by (simp add: sort_inner_prefix)
    show ?thesis
    proof (cases "b < i")
      case True
      then have "?ys ! b = sprites ! b"
        by (simp add: sort_inner_prefix)
      with ya inv a ab b show ?thesis
        by (simp add: front_sorted_def)
    next
      case False
      then have "?ys ! b = drop i ?ys ! (b - i)"
        using ab by simp
      moreover have "b - i < length (drop i ?ys)"
        using False ab by (simp only: length_drop) linarith
      ultimately have "?ys ! b \<in> set (drop i ?ys)"
        by (metis nth_mem)
      also have "set (drop i ?ys) = set (drop i sprites)"
        using sort_inner_drop_mset [of i "i + 1" sprites] by (metis lessI Suc_eq_plus1 set_mset_mset)
      finally obtain c where c: "c < length (drop i sprites)" "?ys ! b = drop i sprites ! c"
        by (metis in_set_conv_nth)
      then have "?ys ! b = sprites ! (i + c)" "i + c < length sprites"
        by simp_all
      moreover from a have "a < i + c"
        by simp
      ultimately show ?thesis
        using inv a ya unfolding front_sorted_def by metis
    qed
  qed
qed

lemma sort_outer_sorted:
  "front_sorted i sprites \<Longrightarrow>
   sorted_wrt (\<lambda>a b. sprite_dist b \<le> sprite_dist a) (sort_outer i sprites)"
proof (induction i sprites rule: sort_outer.induct)
  case (1 i sprites)
  show ?case
  proof (cases "int i < int (length sprites) - 1")
    case True
    with "1.IH" front_sorted_step [OF "1.prems"] show ?thesis
      by (subst sort_outer.simps) simp
  next
    case False
    have "sorted_wrt (\<lambda>a b. sprite_dist b \<le> sprite_dist a) sprites"
      unfolding sorted_wrt_iff_nth_less
    proof (intro allI impI)
      fix a b assume "a < b" "b < length sprites"
      with False have "a < i"
        by linarith
      with "1.prems" \<open>a < b\<close> \<open>b < length sprites\<close>
      show "sprite_dist (sprites ! b) \<le> sprite_dist (sprites ! a)"
        by (simp add: front_sorted_def)
    qed
    with False show ?thesis
      by (subst sort_outer.simps) simp
  qed
qed

lemma sort_outer_mset: "mset (sort_outer i sprites) = mset sprites"
proof (induction i sprites rule: sort_outer.induct)
  case (1 i sprites)
  show ?case
  proof (cases "int i < int (length sprites) - 1")
    case True
    with "1.IH" show ?thesis
      by (subst sort_outer.simps) (simp add: sort_inner_mset)
  next
    case False
    then show ?thesis
      by (subst sort_outer.simps) simp
  qed
qed

lemma sort_sprites_sorted:
  "sorted_wrt (\<lambda>a b. sprite_dist b \<le> sprite_dist a) (sort_sprites sprites)"
  unfolding sort_sprites_def by (rule sort_outer_sorted) (simp add: front_sorted_def)

lemma sort_sprites_mset: "mset (sort_sprites sprites) = mset sprites"
  by (simp add: sort_sprites_def sort_outer_mset)

lemma descending_unique:
  fixes ds :: "real list"
  assumes "sorted_wrt (\<lambda>a b. b \<le> a) ds" "mset ds = {#10, 50, 30#}"
  shows "ds = [50, 30, 10]"
proof -
  have "sorted (rev ds)"
    using assms(1) by (simp add: sorted_wrt_rev)
  moreover have "mset (rev ds) = mset [10, 30, 50 :: real]"
    using assms(2) by simp
  ultimately have "sort [10, 30, 50 :: real] = rev ds"
    by (metis properties_for_sort)
  then have "rev ds = [10, 30, 50]"
    by simp
  then have "rev (rev ds) = rev [10, 30, 50]"
    by (rule arg_cong)
  then show ?thesis
    by simp
qed

text \<open>
  Claim C5. After the sort the list of sprite instances is a permutation of the collected
  instances and is ordered by non-increasing distance, farthest first; the sprites are drawn
  in list order. Three sprites at distances 10, 50 and 30, in whatever order they were
  collected, come out in the order 50, 30, 10.
\<close>

theorem sort_sprites_far_to_near:
  "mset (sort_sprites (collect_sprites px py)) = mset (collect_sprites px py) \<and>
   sorted_wrt (\<lambda>a b. sprite_dist a \<ge> sprite_dist b) (sort_sprites (collect_sprites px py)) \<and>
   mset (sort_sprites sprites) = mset sprites \<and>
   sorted_wrt (\<lambda>a b. sprite_dist a \<ge> sprite_dist b) (sort_sprites sprites) \<and>
   (mset (map sprite_dist sprites) = {#10, 50, 30#} \<longrightarrow>
      map sprite_dist (sort_sprites sprites) = [50, 30, 10])"
proof -
  have order: "map sprite_dist (sort_sprites sprites) = [50, 30, 10]"
    if "mset (map sprite_dist sprites) = {#10, 50, 30#}"
  proof (rule descending_unique)
    show "sorted_wrt (\<lambda>a b. b \<le> a) (map sprite_dist (sort_sprites sprites))"
      using sort_sprites_sorted [of sprites] by (simp add: sorted_wrt_map)
    have "mset (map sprite_dist (sort_sprites sprites)) = mset (map sprite_dist sprites)"
      by (simp add: sort_sprites_mset)
    with that show "mset (map sprite_dist (sort_sprites sprites)) = {#10, 50, 30#}"
      by simp
  qed
  show ?thesis
    using order by (simp add: sort_sprites_mset sort_sprites_sorted)
qed

theorem sort_sprites_far_to_near_witness:
  "map sprite_dist (sort_sprites
     [\<lparr>sprite_x = 96, sprite_y = 96, sprite_dist = 10, sprite_type = 2\<rparr>,
      \<lparr>sprite_x = 288, sprite_y = 96, sprite_dist = 50, sprite_type = 5\<rparr>,
      \<lparr>sprite_x = 224, sprite_y = 160, sprite_dist = 30, sprite_type = 8\<rparr>]) = [50, 30, 10]"
  using sort_sprites_far_to_near [of _ _
     "[\<lparr>sprite_x = 96, sprite_y = 96, sprite_dist = 10, sprite_type = 2\<rparr>,
      \<lparr>sprite_x = 288, sprite_y = 96, sprite_dist = 50, sprite_type = 5\<rparr>,
      \<lparr>sprite_x = 224, sprite_y = 160, sprite_dist = 30, sprite_type = 8\<rparr>]"]
  by simp

section \<open>Sprite rendering properties\<close>

lemma sprite_footprint_bounds:
  assumes "sprite_footprint angle_diff perpDist column_width = Some rect"
  shows "512 \<le> drawStartX rect" "drawEndX rect \<le> 1023" "0 \<le> drawStartY rect" "drawEndY rect \<le> 511"
    "sprite_w rect = sprite_h rect"
  using assms
  by (auto simp: sprite_footprint_def Let_def split: if_splits)

lemma for_loop_cell:
  assumes pres: "\<And>j s. P s \<Longrightarrow> P (body j s)"
    and other: "\<And>j s. P s \<Longrightarrow> j \<noteq> k \<Longrightarrow> body j s ! c = s ! c"
    and here: "\<And>s. P s \<Longrightarrow> body k s ! c = f (s ! c)"
  shows "P s \<Longrightarrow> P (for_loop i hi body s) \<and>
         for_loop i hi body s ! c = (if i \<le> k \<and> k \<le> hi then f (s ! c) else s ! c)"
proof (induction "nat (hi + 1 - i)" arbitrary: i s rule: less_induct)
  case less
  show ?case
  proof (cases "i \<le> hi")
    case False
    with less.prems show ?thesis
      by (subst (1 2) for_loop.simps) auto
  next
    case True
    have step: "for_loop i hi body s = for_loop (i + 1) hi body (body i s)"
      using True by (subst for_loop.simps) simp
    have P': "P (body i s)"
      using less.prems by (rule pres)
    have "nat (hi + 1 - (i + 1)) < nat (hi + 1 - i)"
      using True by simp
    from less.hyps [OF this P']
    have IH: "P (for_loop (i + 1) hi body (body i s))"
      "for_loop (i + 1) hi body (body i s) ! c =
         (if i + 1 \<le> k \<and> k \<le> hi then f (body i s ! c) else body i s ! c)"
      by simp_all
    show ?thesis
    proof (cases "i = k")
      case True
      with IH here [OF less.prems] \<open>i \<le> hi\<close> show ?thesis
        unfolding step by simp
    next
      case False
      with IH other [OF less.prems, of i] \<open>i \<le> hi\<close> show ?thesis
        unfolding step by auto
    qed
  qed
qed

lemma r_drawpoint_length: "length (r_drawpoint x y color pixels) = length pixels"
  by (simp add: r_drawpoint_def Let_def)

lemma r_drawpoint_nth:
  assumes "length pixels = 524288" "0 \<le> x0" "x0 < 1024" "0 \<le> y0" "y0 < 512"
  shows "r_drawpoint x y color pixels ! pixel_index x0 y0 =
           (if x = x0 \<and> y = y0 then color else pixels ! pixel_index x0 y0)"
proof (cases "x < 0 \<or> x \<ge> 1024 \<or> y < 0 \<or> y \<ge> 512")
  case True
  with assms show ?thesis
    by (auto simp: r_drawpoint_def)
next
  case False
  then have in_range: "0 \<le> 1024 * y + x" "1024 * y + x < 524288"
    by linarith+
  have upd: "r_drawpoint x y color pixels = pixels[nat (1024 * y + x) := color]"
    using False in_range by (simp add: r_drawpoint_def)
  have "x = x0 \<and> y = y0" if eq: "1024 * y + x = 1024 * y0 + x0"
  proof -
    have "\<not> y < y0" "\<not> y0 < y"
      using eq False assms(2-5) by linarith+
    then have "y = y0"
      by simp
    with eq show ?thesis
      by simp
  qed
  then have "1024 * y + x = 1024 * y0 + x0 \<longleftrightarrow> x = x0 \<and> y = y0"
    by auto
  moreover have "0 \<le> 1024 * y0 + x0"
    using assms(2-5) by linarith
  ultimately have same: "nat (1024 * y + x) = nat (1024 * y0 + x0) \<longleftrightarrow> x = x0 \<and> y = y0"
    using in_range(1) by (simp add: eq_nat_nat_iff)
  have "nat (1024 * y0 + x0) < length pixels"
    using assms by linarith
  then show ?thesis
    unfolding upd pixel_index_def using same by (simp add: nth_list_update)
qed

lemma sprite_pixel_length: "length (sprite_pixel darken tex sdist rect x y pixels) = length pixels"
  by (simp add: sprite_pixel_def Let_def r_drawpoint_length)

lemma sprite_pixel_nth:
  assumes "length pixels = 524288" "0 \<le> x0" "x0 < 1024" "0 \<le> y0" "y0 < 512"
  shows "sprite_pixel darken tex sdist rect x y pixels ! pixel_index x0 y0 =
           (if x = x0 \<and> y = y0
               \<and> tex ! nat (sprite_texY rect y * 64 + sprite_texX rect x) \<noteq> 0xFFFF00FF
            then shade_sprite darken (tex ! nat (sprite_texY rect y * 64 + sprite_texX rect x)) sdist
            else pixels ! pixel_index x0 y0)"
  by (auto simp: sprite_pixel_def Let_def r_drawpoint_nth [OF assms])

lemma sprite_rows_nth:
  assumes len: "length pixels = 524288" and p: "0 \<le> x0" "x0 < 1024" "0 \<le> y0" "y0 < 512"
  shows "length (for_loop lo hi (sprite_pixel darken tex sdist rect x) pixels) = 524288 \<and>
         for_loop lo hi (sprite_pixel darken tex sdist rect x) pixels ! pixel_index x0 y0 =
           (if x = x0 \<and> lo \<le> y0 \<and> y0 \<le> hi
               \<and> tex ! nat (sprite_texY rect y0 * 64 + sprite_texX rect x0) \<noteq> 0xFFFF00FF
            then shade_sprite darken (tex ! nat (sprite_texY rect y0 * 64 + sprite_texX rect x0)) sdist
            else pixels ! pixel_index x0 y0)"
proof -
  let ?f = "\<lambda>old. if x = x0 \<and> tex ! nat (sprite_texY rect y0 * 64 + sprite_texX rect x0) \<noteq> 0xFFFF00FF
                   then shade_sprite darken (tex ! nat (sprite_texY rect y0 * 64 + sprite_texX rect x0)) sdist
                   else old"
  have "length (for_loop lo hi (sprite_pixel darken tex sdist rect x) pixels) = 524288 \<and>
        for_loop lo hi (sprite_pixel darken tex sdist rect x) pixels ! pixel_index x0 y0 =
          (if lo \<le> y0 \<and> y0 \<le> hi then ?f (pixels ! pixel_index x0 y0) else pixels ! pixel_index x0 y0)"
  proof (rule for_loop_cell [where P = "\<lambda>s. length s = 524288" and k = y0])
    show "length (sprite_pixel darken tex sdist rect x j s) = 524288" if "length s = 524288" for j s
      using that by (simp add: sprite_pixel_length)
    show "sprite_pixel darken tex sdist rect x j s ! pixel_index x0 y0 = s ! pixel_index x0 y0"
      if "length s = 524288" "j \<noteq> y0" for j s
      using that(2) by (simp add: sprite_pixel_nth [OF that(1) p])
    show "sprite_pixel darken tex sdist rect x y0 s ! pixel_index x0 y0 = ?f (s ! pixel_index x0 y0)"
      if "length s = 524288" for s
      by (auto simp: sprite_pixel_nth [OF that p])
    show "length pixels = 524288"
      by (rule len)
  qed
  then show ?thesis
    by auto
qed

lemma sprite_column_nth:
  assumes len: "length pixels = 524288" and p: "0 \<le> x0" "x0 < 1024" "0 \<le> y0" "y0 < 512"
  shows "length (sprite_column darken wd cw perpDist tex sdist rect x pixels) = 524288 \<and>
         sprite_column darken wd cw perpDist tex sdist rect x pixels ! pixel_index x0 y0 =
           (if x = x0 \<and> perpDist \<le> wall_d wd cw x0 - 0.0005
               \<and> drawStartY rect \<le> y0 \<and> y0 \<le> drawEndY rect
               \<and> tex ! nat (sprite_texY rect y0 * 64 + sprite_texX rect x0) \<noteq> 0xFFFF00FF
            then shade_sprite darken (tex ! nat (sprite_texY rect y0 * 64 + sprite_texX rect x0)) sdist
            else pixels ! pixel_index x0 y0)"
  using sprite_rows_nth [OF len p, of "drawStartY rect" "drawEndY rect" darken tex sdist rect x] len
  by (auto simp: sprite_column_def)

lemma sprite_columns_nth:
  assumes len: "length pixels = 524288" and p: "0 \<le> x0" "x0 < 1024" "0 \<le> y0" "y0 < 512"
  shows "for_loop lo hi (sprite_column darken wd cw perpDist tex sdist rect) pixels ! pixel_index x0 y0 =
           (if lo \<le> x0 \<and> x0 \<le> hi \<and> perpDist \<le> wall_d wd cw x0 - 0.0005
               \<and> drawStartY rect \<le> y0 \<and> y0 \<le> drawEndY rect
               \<and> tex ! nat (sprite_texY rect y0 * 64 + sprite_texX rect x0) \<noteq> 0xFFFF00FF
            then shade_sprite darken (tex ! nat (sprite_texY rect y0 * 64 + sprite_texX rect x0)) sdist
            else pixels ! pixel_index x0 y0)"
proof -
  let ?g = "\<lambda>old. if perpDist \<le> wall_d wd cw x0 - 0.0005
               \<and> drawStartY rect \<le> y0 \<and> y0 \<le> drawEndY rect
               \<and> tex ! nat (sprite_texY rect y0 * 64 + sprite_texX rect x0) \<noteq> 0xFFFF00FF
            then shade_sprite darken (tex ! nat (sprite_texY rect y0 * 64 + sprite_texX rect x0)) sdist
            else old"
  have "length (for_loop lo hi (sprite_column darken wd cw perpDist tex sdist rect) pixels) = 524288 \<and>
        for_loop lo hi (sprite_column darken wd cw perpDist tex sdist rect) pixels ! pixel_index x0 y0 =
          (if lo \<le> x0 \<and> x0 \<le> hi then ?g (pixels ! pixel_index x0 y0) else pixels ! pixel_index x0 y0)"
  proof (rule for_loop_cell [where P = "\<lambda>s. length s = 524288" and k = x0])
    show "length (sprite_column darken wd cw perpDist tex sdist rect j s) = 524288" if "length s = 524288" for j s
      using sprite_column_nth [OF that p] by simp
    show "sprite_column darken wd cw perpDist tex sdist rect j s ! pixel_index x0 y0 = s ! pixel_index x0 y0"
      if "length s = 524288" "j \<noteq> x0" for j s
      using sprite_column_nth [OF that(1) p, of darken wd cw perpDist tex sdist rect j] that(2) by simp
    show "sprite_column darken wd cw perpDist tex sdist rect x0 s ! pixel_index x0 y0 = ?g (s ! pixel_index x0 y0)"
      if "length s = 524288" for s
      using sprite_column_nth [OF that p, of darken wd cw perpDist tex sdist rect x0] by simp
    show "length pixels = 524288"
      by (rule len)
  qed
  then show ?thesis
    by auto
qed

lemma depth_sample_footprint:
  assumes "512 \<le> x" "x \<le> 1023"
  shows "0 \<le> \<lfloor>(1024 - (real_of_int x + 1 / 2)) / 2\<rfloor>" "\<lfloor>(1024 - (real_of_int x + 1 / 2)) / 2\<rfloor> \<le> 255"
    "wall_d wd 2 x =
       (if \<lfloor>(1024 - (real_of_int x + 1 / 2)) / 2\<rfloor> < 255
        then (1 - ((1024 - (real_of_int x + 1 / 2)) / 2 - real_of_int \<lfloor>(1024 - (real_of_int x + 1 / 2)) / 2\<rfloor>))
               * wd ! nat \<lfloor>(1024 - (real_of_int x + 1 / 2)) / 2\<rfloor>
             + ((1024 - (real_of_int x + 1 / 2)) / 2 - real_of_int \<lfloor>(1024 - (real_of_int x + 1 / 2)) / 2\<rfloor>)
               * wd ! nat (\<lfloor>(1024 - (real_of_int x + 1 / 2)) / 2\<rfloor> + 1)
        else wd ! 255)"
proof -
  define rf where "rf = (1024 - (real_of_int x + 1 / 2)) / 2"
  have rf: "1 / 4 \<le> rf" "rf < 256"
    using assms by (simp_all add: rf_def)
  show lo: "0 \<le> \<lfloor>(1024 - (real_of_int x + 1 / 2)) / 2\<rfloor>"
    using rf(1) unfolding rf_def [symmetric] by (simp add: le_floor_iff)
  show hi: "\<lfloor>(1024 - (real_of_int x + 1 / 2)) / 2\<rfloor> \<le> 255"
    using rf(2) unfolding rf_def [symmetric] by (simp add: floor_le_iff)
  show "wall_d wd 2 x =
       (if \<lfloor>(1024 - (real_of_int x + 1 / 2)) / 2\<rfloor> < 255
        then (1 - ((1024 - (real_of_int x + 1 / 2)) / 2 - real_of_int \<lfloor>(1024 - (real_of_int x + 1 / 2)) / 2\<rfloor>))
               * wd ! nat \<lfloor>(1024 - (real_of_int x + 1 / 2)) / 2\<rfloor>
             + ((1024 - (real_of_int x + 1 / 2)) / 2 - real_of_int \<lfloor>(1024 - (real_of_int x + 1 / 2)) / 2\<rfloor>)
               * wd ! nat (\<lfloor>(1024 - (real_of_int x + 1 / 2)) / 2\<rfloor> + 1)
        else wd ! 255)"
  proof -
    have rf_eq: "(real_of_int 1024 - (real_of_int x + 5 / 10)) / real_of_int 2 = rf"
      by (simp add: rf_def)
    have fl: "0 \<le> \<lfloor>rf\<rfloor>" "\<lfloor>rf\<rfloor> \<le> 255"
      using lo hi by (simp_all add: rf_def)
    have "wall_d wd 2 x =
       (if \<lfloor>rf\<rfloor> < 255
        then (1 - (rf - real_of_int \<lfloor>rf\<rfloor>)) * wd ! nat \<lfloor>rf\<rfloor>
             + (rf - real_of_int \<lfloor>rf\<rfloor>) * wd ! nat (\<lfloor>rf\<rfloor> + 1)
        else wd ! 255)"
    proof (cases "\<lfloor>rf\<rfloor> < 255")
      case True
      with fl show ?thesis
        unfolding wall_d_def depth_sample_def Let_def rf_eq by simp
    next
      case False
      with fl have "\<lfloor>rf\<rfloor> = 255"
        by linarith
      then show ?thesis
        unfolding wall_d_def depth_sample_def Let_def rf_eq by simp
    qed
    then show ?thesis
      unfolding rf_def .
  qed
qed

lemma sprite_tex_bounds:
  "0 \<le> sprite_texX rect x" "sprite_texX rect x \<le> 63" "0 \<le> sprite_texY rect y" "sprite_texY rect y \<le> 63"
  by (simp_all add: sprite_texX_def sprite_texY_def Let_def)

text \<open>
  Claim C6. Let a sprite pass the size checks with screen rectangle \<open>rect\<close>, and let \<open>x\<close> be a
  column of the rectangle. Then \<open>x\<close> lies in the 3D viewport, the wall distance used for the
  depth test is the linear interpolation of the buffer entries \<open>\<lfloor>rf\<rfloor>\<close> and \<open>\<lfloor>rf\<rfloor> + 1\<close> for
  \<open>rf = (1024 - (x + 1/2)) / 2\<close>, both within the 256 entries, the upper one clamped to the
  last ray. The distance of the sprite that is compared with it is the perpendicular one:
  the distance \<open>sprite_dist\<close> times the cosine of the bearing of the sprite relative to the
  facing direction, an angle in degrees that the code converts to radians with its constant
  3.14159265359. If that perpendicular distance is not nearer than the wall distance by at
  least the tolerance 0.0005 (in particular if it is not strictly nearer), no pixel of
  column \<open>x\<close> changes. If it is nearer by at least the tolerance, every row of the rectangle
  gets the colour computed from its texel, except where the texel is the transparent colour
  \<open>0xFFFF00FF\<close>, where the pixel keeps its value; the texel index lies within the 4096
  texture entries.
\<close>

theorem sprite_depth_test:
  assumes len: "length pixels = 524288"
    and fp: "sprite_footprint (sprite_angle_diff px py pangle spr)
               (sprite_dist spr * cos (sprite_angle_diff px py pangle spr * 3.14159265359 / 180)) 2
             = Some rect"
    and h: "0 < sprite_h rect"
    and x: "drawStartX rect \<le> x" "x \<le> drawEndX rect"
    and y: "0 \<le> y" "y < 512"
  shows "512 \<le> x \<and> x \<le> 1023 \<and> 0 \<le> drawStartY rect \<and> drawEndY rect \<le> 511 \<and>
    0 \<le> \<lfloor>(1024 - (real_of_int x + 1 / 2)) / 2\<rfloor> \<and> \<lfloor>(1024 - (real_of_int x + 1 / 2)) / 2\<rfloor> \<le> 255 \<and>
    wall_d wd 2 x =
       (if \<lfloor>(1024 - (real_of_int x + 1 / 2)) / 2\<rfloor> < 255
        then (1 - ((1024 - (real_of_int x + 1 / 2)) / 2 - real_of_int \<lfloor>(1024 - (real_of_int x + 1 / 2)) / 2\<rfloor>))
               * wd ! nat \<lfloor>(1024 - (real_of_int x + 1 / 2)) / 2\<rfloor>
             + ((1024 - (real_of_int x + 1 / 2)) / 2 - real_of_int \<lfloor>(1024 - (real_of_int x + 1 / 2)) / 2\<rfloor>)
               * wd ! nat (\<lfloor>(1024 - (real_of_int x + 1 / 2)) / 2\<rfloor> + 1)
        else wd ! 255) \<and>
    (wall_d wd 2 x - 0.0005
       < sprite_dist spr * cos (sprite_angle_diff px py pangle spr * 3.14159265359 / 180) \<longrightarrow>
       render_sprite darken px py pangle wd 2 r_get_sprite spr pixels ! pixel_index x y = pixels ! pixel_index x y) \<and>
    (wall_d wd 2 x
       \<le> sprite_dist spr * cos (sprite_angle_diff px py pangle spr * 3.14159265359 / 180) \<longrightarrow>
       render_sprite darken px py pangle wd 2 r_get_sprite spr pixels ! pixel_index x y = pixels ! pixel_index x y) \<and>
    (sprite_dist spr * cos (sprite_angle_diff px py pangle spr * 3.14159265359 / 180)
       \<le> wall_d wd 2 x - 0.0005 \<and> drawStartY rect \<le> y \<and> y \<le> drawEndY rect \<longrightarrow>
       render_sprite darken px py pangle wd 2 r_get_sprite spr pixels ! pixel_index x y =
         (if r_get_sprite (sprite_type spr) ! nat (sprite_texY rect y * 64 + sprite_texX rect x) = 0xFFFF00FF
          then pixels ! pixel_index x y
          else shade_sprite darken
                 (r_get_sprite (sprite_type spr) ! nat (sprite_texY rect y * 64 + sprite_texX rect x))
                 (sprite_dist spr))) \<and>
    0 \<le> sprite_texY rect y * 64 + sprite_texX rect x \<and> sprite_texY rect y * 64 + sprite_texX rect x < 4096"
proof -
  define perp where
    "perp = sprite_dist spr * cos (sprite_angle_diff px py pangle spr * 3.14159265359 / 180)"
  have perp: "sprite_dist spr * cos (m_deg_to_rad (sprite_angle_diff px py pangle spr)) = perp"
    by (simp add: perp_def m_deg_to_rad_def)
  note fp' = fp [folded perp_def]
  have xb: "512 \<le> x" "x \<le> 1023" and yb: "0 \<le> drawStartY rect" "drawEndY rect \<le> 511"
    using sprite_footprint_bounds [OF fp'] x by simp_all
  then have p: "0 \<le> x" "x < 1024"
    by simp_all
  have out: "render_sprite darken px py pangle wd 2 r_get_sprite spr pixels =
      for_loop (drawStartX rect) (drawEndX rect)
        (sprite_column darken wd 2 perp (r_get_sprite (sprite_type spr)) (sprite_dist spr) rect) pixels"
    unfolding render_sprite_def Let_def perp by (simp add: fp')
  note cell = sprite_columns_nth [OF len p y, where lo = "drawStartX rect" and hi = "drawEndX rect"
      and wd = wd and cw = 2 and perpDist = perp and darken = darken
      and tex = "r_get_sprite (sprite_type spr)" and sdist = "sprite_dist spr" and rect = rect]
  have tex: "0 \<le> sprite_texY rect y * 64 + sprite_texX rect x"
    "sprite_texY rect y * 64 + sprite_texX rect x < 4096"
    using sprite_tex_bounds(1,2) [of rect x] sprite_tex_bounds(3,4) [of rect y] by linarith+
  show ?thesis
    unfolding perp_def [symmetric]
    using xb yb tex x depth_sample_footprint(1,2) [OF xb] depth_sample_footprint(3) [OF xb, of wd]
    unfolding out cell by auto
qed

text \<open>
  A sprite seen 20 degrees off the facing direction: the player stands at \<open>(100, 160)\<close>
  facing 340 degrees, the sprite of cell (3, 2) is 124 away and its perpendicular distance
  lies between 116.51 and 116.53. The wall distances rise by 0.4 from ray to ray, and the
  texture has transparent even rows. Column 690 samples the rays 166 and 167 (at 116.4 and
  116.8) with weight 3/4 on the second, and column 691 with weight 1/4.
\<close>

lemma cos_20_degrees:
  "0.9396 < cos (20 * 3.14159265359 / 180 :: real)" "cos (20 * 3.14159265359 / 180 :: real) < 0.9397"
proof -
  define a :: real where "a = 20 * 3.14159265359 / 180"
  have "0.9396 < 1 - a\<^sup>2 / 2 + a ^ 4 / 24 - a ^ 6 / 720" "1 - a\<^sup>2 / 2 + a ^ 4 / 24 + a ^ 6 / 720 < 0.9397"
    by (simp_all add: a_def power2_eq_square eval_nat_numeral)
  with cos_taylor [of a] have "0.9396 < cos a" "cos a < 0.9397"
    by linarith+
  then show "0.9396 < cos (20 * 3.14159265359 / 180 :: real)" "cos (20 * 3.14159265359 / 180 :: real) < 0.9397"
    by (simp_all add: a_def)
qed

lemma oblique_bearing:
  "sprite_angle_diff 100 160 340 \<lparr>sprite_x = 224, sprite_y = 160, sprite_dist = 124, sprite_type = 8\<rparr> = 20"
  by (simp add: sprite_angle_diff_def atan2f_def m_fix_ang_def)

lemma oblique_footprint:
  assumes "116.51 < P" "P < 116.53"
  shows "sprite_footprint 20 P 2 =
    Some \<lparr>sprite_h = 281, sprite_w = 281, drawStartX = 512, drawEndX = 737,
          drawStartY = 115, drawEndY = 396, texX_start = 12, texY_start = 0\<rparr>"
proof -
  have "281 \<le> 32768 / P" "32768 / P < 282"
    using assms by (simp_all add: field_simps)
  moreover have "0 \<le> 32768 / P"
    using assms by simp
  ultimately have h: "c_int (32768 / P) = 281"
    unfolding c_int_def by (simp add: floor_eq_iff)
  from assms have "\<not> P < 1"
    by simp
  then show ?thesis
    by (simp add: sprite_footprint_def h c_div_def Let_def) (simp_all add: c_int_def)
qed

lemma oblique_walls:
  "wall_d (map (\<lambda>i. 50 + real i * 2 / 5) [0..<256]) 2 690 = 116.7"
  "wall_d (map (\<lambda>i. 50 + real i * 2 / 5) [0..<256]) 2 691 = 116.5"
  by (simp_all add: wall_d_def depth_sample_def Let_def)

lemma oblique_texel:
  "sprite_texX \<lparr>sprite_h = 281, sprite_w = 281, drawStartX = 512, drawEndX = 737,
          drawStartY = 115, drawEndY = 396, texX_start = 12, texY_start = 0\<rparr> 690 = 52"
  "sprite_texX \<lparr>sprite_h = 281, sprite_w = 281, drawStartX = 512, drawEndX = 737,
          drawStartY = 115, drawEndY = 396, texX_start = 12, texY_start = 0\<rparr> 691 = 52"
  "sprite_texY \<lparr>sprite_h = 281, sprite_w = 281, drawStartX = 512, drawEndX = 737,
          drawStartY = 115, drawEndY = 396, texX_start = 12, texY_start = 0\<rparr> 120 = 1"
  "sprite_texY \<lparr>sprite_h = 281, sprite_w = 281, drawStartX = 512, drawEndX = 737,
          drawStartY = 115, drawEndY = 396, texX_start = 12, texY_start = 0\<rparr> 125 = 2"
  by (simp_all add: sprite_texX_def sprite_texY_def c_int_def)

lemma striped_texture:
  "map (\<lambda>i. if even (i div 64) then 0xFFFF00FF else 0xFF204000 + of_nat i) [0..<4096] ! 116 = (0xFF204074 :: 32 word)"
  "map (\<lambda>i. if even (i div 64) then 0xFFFF00FF else 0xFF204000 + of_nat i) [0..<4096] ! 180 = (0xFFFF00FF :: 32 word)"
  by simp_all

theorem sprite_depth_test_witness:
  "sprite_angle_diff 100 160 340 \<lparr>sprite_x = 224, sprite_y = 160, sprite_dist = 124, sprite_type = 8\<rparr> = 20 \<and>
   116.51 < 124 * cos (20 * 3.14159265359 / 180 :: real) \<and>
   124 * cos (20 * 3.14159265359 / 180 :: real) < 116.53 \<and>
   wall_d (map (\<lambda>i. 50 + real i * 2 / 5) [0..<256]) 2 690 = 116.7 \<and>
   wall_d (map (\<lambda>i. 50 + real i * 2 / 5) [0..<256]) 2 691 = 116.5 \<and>
   render_sprite (\<lambda>c d. of_int (c_int (real (unat c) * sprite_dark d))) 100 160 340 (map (\<lambda>i. 50 + real i * 2 / 5) [0..<256]) 2
      (\<lambda>t. map (\<lambda>i. if even (i div 64) then 0xFFFF00FF else 0xFF204000 + of_nat i) [0..<4096])
      \<lparr>sprite_x = 224, sprite_y = 160, sprite_dist = 124, sprite_type = 8\<rparr>
      (replicate 524288 0xFFBBBBBB) ! pixel_index 690 120 = 0xFF1A345F \<and>
   render_sprite (\<lambda>c d. of_int (c_int (real (unat c) * sprite_dark d))) 100 160 340 (map (\<lambda>i. 50 + real i * 2 / 5) [0..<256]) 2
      (\<lambda>t. map (\<lambda>i. if even (i div 64) then 0xFFFF00FF else 0xFF204000 + of_nat i) [0..<4096])
      \<lparr>sprite_x = 224, sprite_y = 160, sprite_dist = 124, sprite_type = 8\<rparr>
      (replicate 524288 0xFFBBBBBB) ! pixel_index 690 125 = 0xFFBBBBBB \<and>
   render_sprite (\<lambda>c d. of_int (c_int (real (unat c) * sprite_dark d))) 100 160 340 (map (\<lambda>i. 50 + real i * 2 / 5) [0..<256]) 2
      (\<lambda>t. map (\<lambda>i. if even (i div 64) then 0xFFFF00FF else 0xFF204000 + of_nat i) [0..<4096])
      \<lparr>sprite_x = 224, sprite_y = 160, sprite_dist = 124, sprite_type = 8\<rparr>
      (replicate 524288 0xFFBBBBBB) ! pixel_index 691 120 = 0xFFBBBBBB"
proof -
  let ?S = "\<lparr>sprite_x = 224, sprite_y = 160, sprite_dist = 124, sprite_type = 8\<rparr>"
  let ?R = "\<lparr>sprite_h = 281, sprite_w = 281, drawStartX = 512, drawEndX = 737,
          drawStartY = 115, drawEndY = 396, texX_start = 12, texY_start = 0\<rparr>"
  let ?WD = "map (\<lambda>i. 50 + real i * 2 / 5) [0..<256]"
  let ?TEX = "\<lambda>t :: int. map (\<lambda>i. if even (i div 64) then 0xFFFF00FF else 0xFF204000 + of_nat i) [0..<4096]
                :: 32 word list"
  let ?D = "\<lambda>(c :: 32 word) d. of_int (c_int (real (unat c) * sprite_dark d)) :: 32 word"
  let ?PIX = "replicate 524288 (0xFFBBBBBB :: 32 word)"
  define P where "P = sprite_dist ?S * cos (sprite_angle_diff 100 160 340 ?S * 3.14159265359 / 180)"
  have "116.51 < 124 * c \<and> 124 * c < 116.53" if "0.9396 < c" "c < 0.9397" for c :: real
    using that by simp
  from this [OF cos_20_degrees]
  have c: "116.51 < 124 * cos (20 * 3.14159265359 / 180 :: real)"
    "124 * cos (20 * 3.14159265359 / 180 :: real) < 116.53"
    by simp_all
  then have P: "116.51 < P" "P < 116.53"
    unfolding P_def oblique_bearing by simp_all
  have fp: "sprite_footprint (sprite_angle_diff 100 160 340 ?S) P 2 = Some ?R"
    unfolding oblique_bearing by (rule oblique_footprint [OF P])
  have drawn: "render_sprite ?D 100 160 340 ?WD 2 ?TEX ?S ?PIX ! pixel_index 690 120 = 0xFF1A345F"
    using sprite_depth_test [where pixels = ?PIX and px = 100 and py = 160 and pangle = 340 and spr = ?S
        and rect = ?R and x = 690 and y = 120 and wd = ?WD and darken = ?D and r_get_sprite = ?TEX,
        folded P_def] fp P
    by (simp add: oblique_walls oblique_texel striped_texture shade_sprite_def sprite_dark_def
        c_int_def Let_def)
  have skipped: "render_sprite ?D 100 160 340 ?WD 2 ?TEX ?S ?PIX ! pixel_index 690 125 = 0xFFBBBBBB"
    using sprite_depth_test [where pixels = ?PIX and px = 100 and py = 160 and pangle = 340 and spr = ?S
        and rect = ?R and x = 690 and y = 125 and wd = ?WD and darken = ?D and r_get_sprite = ?TEX,
        folded P_def] fp P
    by (simp add: oblique_walls oblique_texel striped_texture pixel_index_def)
  have hidden: "render_sprite ?D 100 160 340 ?WD 2 ?TEX ?S ?PIX ! pixel_index 691 120 = 0xFFBBBBBB"
    using sprite_depth_test [where pixels = ?PIX and px = 100 and py = 160 and pangle = 340 and spr = ?S
        and rect = ?R and x = 691 and y = 120 and wd = ?WD and darken = ?D and r_get_sprite = ?TEX,
        folded P_def] fp P
    by (simp add: oblique_walls oblique_texel striped_texture pixel_index_def)
  show ?thesis
    using oblique_bearing c oblique_walls drawn skipped hidden by simp
qed

end
